theory Spec2Isabelle
  imports Main "HOL-Library.AList"
begin

section \<open>Connection: the pending queue of response handlers\<close>

text \<open>
  A JavaScript \<^verbatim>\<open>Error\<close> object, identified by its message.
\<close>

datatype error = Error string

text \<open>
  How a promise was settled. The message of a parser \<^verbatim>\<open>error\<close> event is
  \<^verbatim>\<open>undefined\<close>, hence the option.
\<close>

datatype outcome = Rejected error | Resolved "string option"

datatype conn_event = EvConnect | EvClose | EvTimeout | EvError error

text \<open>
  The fields of \<^verbatim>\<open>Connection\<close> that \<^verbatim>\<open>send\<close>, \<^verbatim>\<open>onMessage\<close>,
  \<^verbatim>\<open>onError\<close>, \<^verbatim>\<open>onClose\<close> and \<^verbatim>\<open>clearPending\<close> read or write.
  Every handler in \<^verbatim>\<open>pending\<close> is a closure over the \<^verbatim>\<open>resolve\<close> and
  \<^verbatim>\<open>reject\<close> of one promise; it is represented by the number of that promise.
  \<^verbatim>\<open>invoked\<close> records every call of a handler with its two arguments, in call
  order; \<^verbatim>\<open>promises\<close> holds the settlement of each promise (the first
  \<^verbatim>\<open>resolve\<close> or \<^verbatim>\<open>reject\<close> wins, as in JavaScript);
  \<^verbatim>\<open>written\<close> is what was written to the socket; \<^verbatim>\<open>dropped\<close> counts the
  \<^verbatim>\<open>Dropped response\<close> warnings.
\<close>

record connection =
  connected :: bool
  closing :: bool
  lastError :: "error option"
  pending :: "nat list"
  next_promise :: nat
  promises :: "nat \<Rightarrow> outcome option"
  invoked :: "(nat \<times> error option \<times> string option) list"
  written :: "string list"
  emitted :: "conn_event list"
  dropped :: nat

text \<open>\<^verbatim>\<open>command.join(' ')\<close>\<close>

fun join :: "string list \<Rightarrow> string" where
  "join [] = []"
| "join [t] = t"
| "join (t # ts) = t @ '' '' @ join ts"

definition crlf :: string where
  "crlf = [CHR 0x0D, CHR 0x0A]"

text \<open>\<^verbatim>\<open>resolve\<close> and \<^verbatim>\<open>reject\<close> of promise \<open>p\<close>: no effect once settled.\<close>

definition settle :: "nat \<Rightarrow> outcome \<Rightarrow> connection \<Rightarrow> connection" where
  "settle p oc c =
     (case promises c p of
        None \<Rightarrow> c\<lparr>promises := (promises c)(p \<mapsto> oc)\<rparr>
      | Some _ \<Rightarrow> c)"

text \<open>
  The handler pushed by \<^verbatim>\<open>send\<close>, called with \<^verbatim>\<open>(err, response)\<close>:
  \<^verbatim>\<open>if (err) return reject(err); return resolve(response);\<close>
\<close>

definition callback :: "nat \<Rightarrow> error option \<Rightarrow> string option \<Rightarrow> connection \<Rightarrow> connection" where
  "callback p err response c =
     (let c' = c\<lparr>invoked := invoked c @ [(p, err, response)]\<rparr>
      in case err of
           Some e \<Rightarrow> settle p (Rejected e) c'
         | None \<Rightarrow> settle p (Resolved response) c')"

text \<open>
  \<^verbatim>\<open>send(command)\<close>: writes the line, pushes one handler, returns the promise.
\<close>

definition send :: "string list \<Rightarrow> connection \<Rightarrow> nat \<times> connection" where
  "send command c =
     (let commandString = join command;
          p = next_promise c
      in (p, c\<lparr>written := written c @ [commandString @ crlf],
                pending := pending c @ [p],
                next_promise := Suc p\<rparr>))"

text \<open>
  \<^verbatim>\<open>onMessage(err, message)\<close>: \<^verbatim>\<open>pending.shift()\<close>, a warning when the
  queue is empty, the handler's call otherwise.
\<close>

definition onMessage :: "error option \<Rightarrow> string option \<Rightarrow> connection \<Rightarrow> connection" where
  "onMessage err message c =
     (case pending c of
        [] \<Rightarrow> c\<lparr>dropped := Suc (dropped c)\<rparr>
      | cb # rest \<Rightarrow> callback cb err message (c\<lparr>pending := rest\<rparr>))"

text \<open>
  \<^verbatim>\<open>clearPending(err)\<close>: \<^verbatim>\<open>pending.forEach(callback => callback(err))\<close>;
  the second argument of each call is \<^verbatim>\<open>undefined\<close>.
\<close>

fun forEach_pending :: "nat list \<Rightarrow> error \<Rightarrow> connection \<Rightarrow> connection" where
  "forEach_pending [] err c = c"
| "forEach_pending (cb # cbs) err c = forEach_pending cbs err (callback cb (Some err) None c)"

definition clearPending :: "error \<Rightarrow> connection \<Rightarrow> connection" where
  "clearPending err c = forEach_pending (pending c) err c"

text \<open>\<^verbatim>\<open>this.lastError || new Error('Connection closed')\<close>\<close>

definition closing_error :: "connection \<Rightarrow> error" where
  "closing_error c = (case lastError c of Some e \<Rightarrow> e | None \<Rightarrow> Error ''Connection closed'')"

definition onClose :: "connection \<Rightarrow> connection" where
  "onClose c =
     (let c1 = c\<lparr>closing := False, connected := False\<rparr>;
          c2 = c1\<lparr>emitted := emitted c1 @ [EvClose]\<rparr>
      in clearPending (closing_error c2) c2)"

definition onError :: "error \<Rightarrow> connection \<Rightarrow> connection" where
  "onError err c = c\<lparr>lastError := Some err, emitted := emitted c @ [EvError err]\<rparr>"

definition onTimeout :: "connection \<Rightarrow> connection" where
  "onTimeout c = c\<lparr>emitted := emitted c @ [EvTimeout]\<rparr>"

text \<open>
  What happens to a connection, one event at a time: a caller sends a command, the parser
  emits a message or an error, the socket emits an error, a timeout or its close.
\<close>

datatype action =
    Send "string list"
  | ParserMessage string
  | ParserError error
  | SocketError error
  | SocketTimeout
  | SocketClose

fun act :: "action \<Rightarrow> connection \<Rightarrow> connection" where
  "act (Send command) c = snd (send command c)"
| "act (ParserMessage m) c = onMessage None (Some m) c"
| "act (ParserError e) c = onMessage (Some e) None c"
| "act (SocketError e) c = onError e c"
| "act SocketTimeout c = onTimeout c"
| "act SocketClose c = onClose c"

fun run :: "action list \<Rightarrow> connection \<Rightarrow> connection" where
  "run [] c = c"
| "run (a # as) c = run as (act a c)"

text \<open>A connection whose greeting has been consumed: nothing pending, nothing sent.\<close>

definition fresh :: connection where
  "fresh = \<lparr>connected = True, closing = False, lastError = None, pending = [],
            next_promise = 0, promises = (\<lambda>_. None), invoked = [], written = [],
            emitted = [EvConnect], dropped = 0\<rparr>"

subsection \<open>Reading a run of a connection\<close>

text \<open>The promises that the calls of \<^verbatim>\<open>send\<close> in a run return, in call order.\<close>

fun returned :: "action list \<Rightarrow> connection \<Rightarrow> nat list" where
  "returned [] c = []"
| "returned (Send command # t) c = fst (send command c) # returned t (act (Send command) c)"
| "returned (a # t) c = returned t (act a c)"

text \<open>The parser's events in a run, in arrival order, as the arguments \<^verbatim>\<open>(err, message)\<close>.\<close>

fun replies :: "action list \<Rightarrow> (error option \<times> string option) list" where
  "replies [] = []"
| "replies (ParserMessage m # t) = (None, Some m) # replies t"
| "replies (ParserError e # t) = (Some e, None) # replies t"
| "replies (a # t) = replies t"

text \<open>
  A run in which the server answers only commands it was sent and the socket stays open:
  \<open>n\<close> is the number of handlers waiting when the run starts.
\<close>

fun in_order :: "nat \<Rightarrow> action list \<Rightarrow> bool" where
  "in_order n [] = True"
| "in_order n (Send command # t) = in_order (Suc n) t"
| "in_order n (ParserMessage m # t) = (0 < n \<and> in_order (n - 1) t)"
| "in_order n (ParserError e # t) = (0 < n \<and> in_order (n - 1) t)"
| "in_order n (SocketClose # t) = False"
| "in_order n (a # t) = in_order n t"

text \<open>An action that is neither a response nor the close of the socket.\<close>

fun no_reply :: "action \<Rightarrow> bool" where
  "no_reply (ParserMessage m) = False"
| "no_reply (ParserError e) = False"
| "no_reply SocketClose = False"
| "no_reply a = True"

text \<open>What a handler's call with \<^verbatim>\<open>(err, response)\<close> makes of its promise.\<close>

definition outcome_of :: "error option \<Rightarrow> string option \<Rightarrow> outcome" where
  "outcome_of err response = (case err of Some e \<Rightarrow> Rejected e | None \<Rightarrow> Resolved response)"

text \<open>
  The state of the queue that \<^verbatim>\<open>send\<close> maintains: the waiting handlers belong to
  different promises, none of them settled, and no promise that \<^verbatim>\<open>send\<close> has yet
  to create is settled.
\<close>

definition wf_queue :: "connection \<Rightarrow> bool" where
  "wf_queue c \<longleftrightarrow>
     distinct (pending c) \<and>
     (\<forall>p \<in> set (pending c). p < next_promise c \<and> promises c p = None) \<and>
     (\<forall>p. next_promise c \<le> p \<longrightarrow> promises c p = None)"

section \<open>Worker: executing one job\<close>

text \<open>
  What JavaScript code throws (or a promise rejects with): an \<^verbatim>\<open>Error\<close> object or
  any other value.
\<close>

datatype thrown = ThrownError error | ThrownValue string

record jobPayload =
  jid :: string
  jobtype :: string
  args :: "string list"

text \<open>
  A piece of asynchronous code over a state \<open>'s\<close>: it leaves a state behind and either
  completes (\<open>None\<close>) or throws. A middleware stage \<^verbatim>\<open>(ctx, next) => ...\<close> is
  given the continuation and is such a piece of code on the context.
\<close>

type_synonym 's task = "'s \<Rightarrow> thrown option \<times> 's"

type_synonym 's stage = "'s task \<Rightarrow> 's task"

text \<open>
  A job function is called with the job's arguments; what it returns (or what its
  promise resolves to) is a function, the thunk, or anything else. The thunk is called
  with the context, of which it sees the job and the store in this model.
\<close>

datatype 'u fn_result = Direct | Thunk "jobPayload \<Rightarrow> 'u task"

type_synonym 'u jobFunction = "string list \<Rightarrow> 'u \<Rightarrow> (thrown + 'u fn_result) \<times> 'u"

text \<open>
  \<^verbatim>\<open>MiddlewareContext\<close>: \<^verbatim>\<open>{job, fn}\<close>; \<open>store\<close> is everything else that the
  user's middleware and job functions can read and write (further properties of the
  context, the process's own objects), of a type \<open>'u\<close> that the user's code chooses.
\<close>

record 'u ctx =
  job :: jobPayload
  fn :: "'u jobFunction option"
  store :: 'u

text \<open>
  The commands that the worker gives to its \<^verbatim>\<open>Client\<close>.
\<close>

datatype call = Fetch "string list" | Ack string | Fail string error | Beat | Close

datatype worker_event = EmitFail jobPayload thrown | EmitError thrown

text \<open>
  Where a slot's loop stands: its \<^verbatim>\<open>setImmediate\<close> callback is waiting to run,
  the tick before it having resolved (\<open>Scheduled\<close>) or rejected (\<open>Failed\<close>); its
  tick awaits \<^verbatim>\<open>fetch\<close>, awaits \<^verbatim>\<open>handle\<close> of a job, awaits the
  \<^verbatim>\<open>sleep\<close> of the catch block; or its tick has returned at the
  \<^verbatim>\<open>quieted\<close> check without rescheduling.
\<close>

datatype phase = Scheduled | Failed | Fetching | Handling jobPayload | Sleeping | Returned

text \<open>
  Where one call of \<^verbatim>\<open>stop()\<close> stands: awaiting
  \<^verbatim>\<open>Promise.all(this.inProgress)\<close>, awaiting \<^verbatim>\<open>this.client.close()\<close>,
  past \<^verbatim>\<open>resolve()\<close>, or past the catch block's warning.
\<close>

datatype shutdown = Draining | Closing | Finished | Warned

text \<open>
  One call of \<^verbatim>\<open>stop()\<close>. It collects the ticks in \<^verbatim>\<open>processors\<close> when
  it is called: \<open>awaiting\<close> are the slots whose collected tick is still pending,
  \<open>failed\<close> says that a collected tick has rejected (\<^verbatim>\<open>Promise.all\<close> rejects
  then). \<open>timer\<close> says that this call's timeout is armed, \<open>resolved\<close> that the
  promise this call returned has been resolved.
\<close>

record stopping =
  awaiting :: "string list"
  failed :: bool
  stage :: shutdown
  timer :: bool
  resolved :: bool

text \<open>
  The worker. \<open>registry\<close> holds the registry object's own entries and \<open>inherited\<close>
  the properties that the object inherits (the registry is a plain object, so
  \<^verbatim>\<open>registry[jobtype]\<close> also finds the members of \<^verbatim>\<open>Object.prototype\<close>), each
  as what calling the value found does. \<open>client\<close> stands for the \<^verbatim>\<open>Client\<close> and
  the server behind it: given the commands made so far and an \<^verbatim>\<open>ack\<close> or
  \<^verbatim>\<open>fail\<close>, whether the promise of that call rejects. \<open>errorListener\<close> says
  whether a listener for \<^verbatim>\<open>error\<close> is attached to the worker (the constructor
  attaches none); listeners return normally. \<open>stops\<close> are the calls of
  \<^verbatim>\<open>stop()\<close> so far, \<open>calls\<close> the commands given to the client in order,
  \<open>events\<close> the events that \<^verbatim>\<open>emit\<close> was called with and returned from,
  \<open>exited\<close> the status of \<^verbatim>\<open>process.exit\<close> once called, \<open>userState\<close> the
  \<open>store\<close> between jobs.
\<close>

record 'u worker =
  queues :: "string list"
  middleware :: "'u ctx stage list"
  registry :: "string \<Rightarrow> 'u jobFunction option"
  inherited :: "string \<Rightarrow> 'u jobFunction option"
  client :: "call list \<Rightarrow> call \<Rightarrow> thrown option"
  errorListener :: bool
  processors :: "(string \<times> phase) list"
  quieted :: bool
  stopped :: bool
  heartbeat :: bool
  signals :: bool
  stops :: "stopping list"
  exited :: "nat option"
  calls :: "call list"
  events :: "worker_event list"
  userState :: 'u

text \<open>
  Modelled from the spec: \<^verbatim>\<open>compose\<close> of the package koa-compose, which is not
  among the sources. It builds "a standard onion composition: each stage may run code
  both before and after delegating to the next stage via a single-use continuation";
  the continuation of the last stage resolves at once. The stages of this development
  call their continuation at most once.
\<close>

fun compose :: "'s stage list \<Rightarrow> 's task" where
  "compose [] = (\<lambda>s. (None, s))"
| "compose (m # ms) = m (compose ms)"

text \<open>
  \<^verbatim>\<open>getJobFnFromRegistry\<close>; \<open>reg\<close> is the lookup \<^verbatim>\<open>registry[jobtype]\<close> of
  the registry that \<^verbatim>\<open>createExecutor\<close> closes over.
\<close>

definition getJobFnFromRegistry ::
  "(string \<Rightarrow> 'u jobFunction option) \<Rightarrow> 'u ctx stage" where
  "getJobFnFromRegistry reg next = (\<lambda>s.
     let s' = s\<lparr>fn := reg (jobtype (job s))\<rparr>
     in case fn s' of
          None \<Rightarrow> (Some (ThrownError (Error (''No jobtype registered: '' @ jobtype (job s)))), s')
        | Some f \<Rightarrow> next s')"

text \<open>
  \<^verbatim>\<open>callJobFn\<close>; calling an undefined \<^verbatim>\<open>fn\<close> is JavaScript's TypeError.
\<close>

definition callJobFn :: "'u ctx stage" where
  "callJobFn next = (\<lambda>s.
     case fn s of
       None \<Rightarrow> (Some (ThrownError (Error ''fn is not a function'')), s)
     | Some f \<Rightarrow>
         (case f (args (job s)) (store s) of
            (Inl e, u) \<Rightarrow> (Some e, s\<lparr>store := u\<rparr>)
          | (Inr Direct, u) \<Rightarrow> next (s\<lparr>store := u\<rparr>)
          | (Inr (Thunk thunk), u) \<Rightarrow>
              (case thunk (job s) u of
                 (Some e, u') \<Rightarrow> (Some e, s\<lparr>store := u'\<rparr>)
               | (None, u') \<Rightarrow> next (s\<lparr>store := u'\<rparr>))))"

text \<open>
  \<^verbatim>\<open>registry[jobtype]\<close>: an own entry of the registry object, or else a property
  that the object inherits.
\<close>

definition registry_get :: "'u worker \<Rightarrow> string \<Rightarrow> 'u jobFunction option" where
  "registry_get w t = (case registry w t of Some f \<Rightarrow> Some f | None \<Rightarrow> inherited w t)"

definition createExecutor :: "'u worker \<Rightarrow> 'u ctx task" where
  "createExecutor w = compose (middleware w @ [getJobFnFromRegistry (registry_get w), callJobFn])"

text \<open>
  Modelled from the spec: \<^verbatim>\<open>wrapNonErrors\<close> of \<^verbatim>\<open>./wrap-non-errors\<close>, which is
  not among the sources. It "normalizes any raised value into a proper error object if
  it is not already one".
\<close>

fun wrapNonErrors :: "thrown \<Rightarrow> error" where
  "wrapNonErrors (ThrownError e) = e"
| "wrapNonErrors (ThrownValue v) = Error v"

text \<open>
  The catch block of \<^verbatim>\<open>handle\<close>. A rejected \<^verbatim>\<open>client.fail\<close> leaves the block by
  its \<^verbatim>\<open>await\<close>: \<^verbatim>\<open>handle\<close> rejects with that error.
\<close>

definition handle_catch :: "jobPayload \<Rightarrow> thrown \<Rightarrow> 'u worker \<Rightarrow> (thrown + string) \<times> 'u worker" where
  "handle_catch j e w =
     (let error = wrapNonErrors e;
          w1 = w\<lparr>calls := calls w @ [Fail (jid j) error]\<rparr>
      in case client w (calls w) (Fail (jid j) error) of
           Some e' \<Rightarrow> (Inl e', w1)
         | None \<Rightarrow> (Inr ''fail'', w1\<lparr>events := events w1 @ [EmitFail j e]\<rparr>))"

text \<open>
  \<^verbatim>\<open>handle(job)\<close>, with the executor that \<^verbatim>\<open>work()\<close> builds by
  \<^verbatim>\<open>createExecutor\<close>, run on the fresh context \<^verbatim>\<open>{ job }\<close>.
\<close>

definition handle :: "jobPayload \<Rightarrow> 'u worker \<Rightarrow> (thrown + string) \<times> 'u worker" where
  "handle j w =
     (case createExecutor w \<lparr>job = j, fn = None, store = userState w\<rparr> of
        (r, s) \<Rightarrow>
          (let w1 = w\<lparr>userState := store s\<rparr>
           in case r of
                Some e \<Rightarrow> handle_catch j e w1
              | None \<Rightarrow>
                  (let w2 = w1\<lparr>calls := calls w1 @ [Ack (jid j)]\<rparr>
                   in case client w (calls w1) (Ack (jid j)) of
                        Some e \<Rightarrow> handle_catch j e w2
                      | None \<Rightarrow> (Inr ''ack'', w2))))"

section \<open>Worker: the slots' loops and the shutdown\<close>

definition phase_of :: "string \<Rightarrow> 'u worker \<Rightarrow> phase option" where
  "phase_of pid w = map_of (processors w) pid"

definition set_phase :: "string \<Rightarrow> phase \<Rightarrow> 'u worker \<Rightarrow> 'u worker" where
  "set_phase pid ph w = w\<lparr>processors := AList.update pid ph (processors w)\<rparr>"

definition quiet :: "'u worker \<Rightarrow> 'u worker" where
  "quiet w = w\<lparr>quieted := True\<rparr>"

text \<open>
  \<^verbatim>\<open>tick(pid)\<close> up to its first \<^verbatim>\<open>await\<close>: the \<^verbatim>\<open>quieted\<close> check, then
  \<^verbatim>\<open>this.fetch()\<close>, which is \<^verbatim>\<open>this.client.fetch(...this.queues)\<close>.
\<close>

definition tick :: "string \<Rightarrow> 'u worker \<Rightarrow> 'u worker" where
  "tick pid w =
     (if quieted w then set_phase pid Returned w
      else set_phase pid Fetching (w\<lparr>calls := calls w @ [Fetch (queues w)]\<rparr>))"

text \<open>
  The promise of a slot's tick settles, resolved (\<open>ok\<close>) or rejected: every call of
  \<^verbatim>\<open>stop()\<close> that collected this tick awaits it no longer, and has a rejected
  tick among its collected ones if this one rejected.
\<close>

definition tick_ends :: "bool \<Rightarrow> string \<Rightarrow> 'u worker \<Rightarrow> 'u worker" where
  "tick_ends ok pid w =
     w\<lparr>stops :=
         map (\<lambda>s. if pid \<in> set (awaiting s)
                  then s\<lparr>awaiting := removeAll pid (awaiting s), failed := (failed s \<or> \<not> ok)\<rparr>
                  else s)
           (stops w)\<rparr>"

text \<open>
  The finally block of \<^verbatim>\<open>tick\<close>: \<^verbatim>\<open>setImmediate(() => this.setTick(pid))\<close>;
  after it the tick resolves, or rejects when the catch block has thrown.
\<close>

definition tick_finally :: "string \<Rightarrow> 'u worker \<Rightarrow> 'u worker" where
  "tick_finally pid w = set_phase pid Scheduled (tick_ends True pid w)"

definition tick_rejects :: "string \<Rightarrow> 'u worker \<Rightarrow> 'u worker" where
  "tick_rejects pid w = set_phase pid Failed (tick_ends False pid w)"

text \<open>
  The catch block of \<^verbatim>\<open>tick\<close>. With a listener attached,
  \<^verbatim>\<open>this.emit("error", e)\<close> returns and the block goes on to
  \<^verbatim>\<open>await sleep(1000)\<close>. With none, \<^verbatim>\<open>emit\<close> throws, as an
  \<^verbatim>\<open>EventEmitter\<close> does for \<^verbatim>\<open>error\<close>: the sleep is skipped, the finally
  block runs and the tick rejects.
\<close>

definition tick_catch :: "thrown \<Rightarrow> string \<Rightarrow> 'u worker \<Rightarrow> 'u worker" where
  "tick_catch e pid w =
     (if errorListener w
      then set_phase pid Sleeping (w\<lparr>events := events w @ [EmitError e]\<rparr>)
      else tick_rejects pid w)"

text \<open>\<^verbatim>\<open>tick\<close> from the settlement of \<^verbatim>\<open>fetch\<close> to its next \<^verbatim>\<open>await\<close>.\<close>

definition tick_fetched :: "thrown + jobPayload option \<Rightarrow> string \<Rightarrow> 'u worker \<Rightarrow> 'u worker" where
  "tick_fetched r pid w =
     (case r of
        Inl e \<Rightarrow> tick_catch e pid w
      | Inr None \<Rightarrow> tick_finally pid w
      | Inr (Some j) \<Rightarrow> set_phase pid (Handling j) w)"

text \<open>\<^verbatim>\<open>tick\<close> through \<^verbatim>\<open>await this.handle(job)\<close>.\<close>

definition tick_handle :: "jobPayload \<Rightarrow> string \<Rightarrow> 'u worker \<Rightarrow> 'u worker" where
  "tick_handle j pid w =
     (case handle j w of
        (Inl e, w') \<Rightarrow> tick_catch e pid w'
      | (Inr marker, w') \<Rightarrow> tick_finally pid w')"

text \<open>A slot whose tick is between two of its \<^verbatim>\<open>await\<close>s: its promise is pending.\<close>

fun in_flight :: "phase \<Rightarrow> bool" where
  "in_flight Fetching = True"
| "in_flight (Handling j) = True"
| "in_flight Sleeping = True"
| "in_flight ph = False"

text \<open>
  \<^verbatim>\<open>this.inProgress\<close> as a call of \<^verbatim>\<open>stop()\<close> finds it: the ticks in
  \<^verbatim>\<open>processors\<close>, of which some are pending and some may have rejected.
\<close>

definition inProgress :: "'u worker \<Rightarrow> stopping" where
  "inProgress w =
     \<lparr>awaiting = map fst (filter (\<lambda>(pid, ph). in_flight ph) (processors w)),
      failed = list_ex (\<lambda>(pid, ph). ph = Failed) (processors w),
      stage = Draining, timer = True, resolved = False\<rparr>"

text \<open>
  \<^verbatim>\<open>stop()\<close> up to \<^verbatim>\<open>await Promise.all(this.inProgress)\<close>: the signal handlers
  are removed, the worker is quieted and stopped, the heartbeat is cleared, the
  timeout of \<^verbatim>\<open>shutdownTimeout\<close> is set and the ticks are collected. Nothing guards
  a second call: it sets its own timeout and awaits its own collection.
\<close>

definition stop :: "'u worker \<Rightarrow> 'u worker" where
  "stop w =
     (let w1 = w\<lparr>signals := False\<rparr>;
          w2 = quiet w1;
          w3 = w2\<lparr>stopped := True, heartbeat := False\<rparr>
      in w3\<lparr>stops := stops w3 @ [inProgress w3]\<rparr>)"

definition update_stop :: "nat \<Rightarrow> (stopping \<Rightarrow> stopping) \<Rightarrow> 'u worker \<Rightarrow> 'u worker" where
  "update_stop n f w = w\<lparr>stops := (stops w)[n := f (stops w ! n)]\<rparr>"

text \<open>
  The \<open>n\<close>-th call of \<^verbatim>\<open>stop()\<close> after \<^verbatim>\<open>Promise.all\<close>: when it resolved,
  up to \<^verbatim>\<open>await this.client.close()\<close>; when it rejected, the catch block, which
  warns. Then the same call from the settlement of that \<^verbatim>\<open>close()\<close> on, and the
  callback of its timeout.
\<close>

definition stop_drained :: "nat \<Rightarrow> 'u worker \<Rightarrow> 'u worker" where
  "stop_drained n w = (update_stop n (\<lambda>s. s\<lparr>stage := Closing\<rparr>) w)\<lparr>calls := calls w @ [Close]\<rparr>"

definition stop_warned :: "nat \<Rightarrow> 'u worker \<Rightarrow> 'u worker" where
  "stop_warned n w = update_stop n (\<lambda>s. s\<lparr>stage := Warned\<rparr>) w"

definition stop_closed :: "nat \<Rightarrow> thrown option \<Rightarrow> 'u worker \<Rightarrow> 'u worker" where
  "stop_closed n r w =
     (case r of
        None \<Rightarrow> update_stop n (\<lambda>s. s\<lparr>timer := False, resolved := True, stage := Finished\<rparr>) w
      | Some e \<Rightarrow> stop_warned n w)"

definition stop_timeout :: "nat \<Rightarrow> 'u worker \<Rightarrow> 'u worker" where
  "stop_timeout n w =
     (update_stop n (\<lambda>s. s\<lparr>timer := False, resolved := True\<rparr>) w)
       \<lparr>calls := calls w @ [Close], exited := Some 1\<rparr>"

text \<open>
  The event loop: one input resumes one piece of the worker's code. An input whose
  code is not waiting for it changes nothing, and nothing runs after
  \<^verbatim>\<open>process.exit\<close>. \<^verbatim>\<open>Promise.all\<close> settles once a collected tick has
  rejected or all have resolved.
\<close>

datatype input =
    SetTick string
  | FetchSettled string "thrown + jobPayload option"
  | HandleSettled string
  | SleepSettled string
  | Quiet
  | Stop
  | AllSettled nat
  | CloseSettled nat "thrown option"
  | TimerFires nat

fun resume :: "input \<Rightarrow> 'u worker \<Rightarrow> 'u worker" where
  "resume (SetTick pid) w =
     (case phase_of pid w of
        None \<Rightarrow> tick pid w
      | Some Scheduled \<Rightarrow> tick pid w
      | Some Failed \<Rightarrow> tick pid w
      | Some ph \<Rightarrow> w)"
| "resume (FetchSettled pid r) w =
     (case phase_of pid w of
        Some Fetching \<Rightarrow> tick_fetched r pid w
      | ph \<Rightarrow> w)"
| "resume (HandleSettled pid) w =
     (case phase_of pid w of
        Some (Handling j) \<Rightarrow> tick_handle j pid w
      | ph \<Rightarrow> w)"
| "resume (SleepSettled pid) w =
     (case phase_of pid w of
        Some Sleeping \<Rightarrow> tick_finally pid w
      | ph \<Rightarrow> w)"
| "resume Quiet w = quiet w"
| "resume Stop w = stop w"
| "resume (AllSettled n) w =
     (if n < length (stops w) \<and> stage (stops w ! n) = Draining
      then (if failed (stops w ! n) then stop_warned n w
            else if awaiting (stops w ! n) = [] then stop_drained n w
            else w)
      else w)"
| "resume (CloseSettled n r) w =
     (if n < length (stops w) \<and> stage (stops w ! n) = Closing then stop_closed n r w else w)"
| "resume (TimerFires n) w =
     (if n < length (stops w) \<and> timer (stops w ! n) then stop_timeout n w else w)"

definition step :: "input \<Rightarrow> 'u worker \<Rightarrow> 'u worker" where
  "step i w = (if exited w = None then resume i w else w)"

fun steps :: "input list \<Rightarrow> 'u worker \<Rightarrow> 'u worker" where
  "steps [] w = w"
| "steps (i # is) w = steps is (step i w)"

text \<open>The inputs of the slots' loops and of \<^verbatim>\<open>quiet()\<close>, as opposed to the shutdown's.\<close>

fun slot_input :: "input \<Rightarrow> bool" where
  "slot_input (SetTick pid) = True"
| "slot_input (FetchSettled pid r) = True"
| "slot_input (HandleSettled pid) = True"
| "slot_input (SleepSettled pid) = True"
| "slot_input Quiet = True"
| "slot_input i = False"

fun is_stop :: "input \<Rightarrow> bool" where
  "is_stop Stop = True"
| "is_stop i = False"

fun is_fetch :: "call \<Rightarrow> bool" where
  "is_fetch (Fetch qs) = True"
| "is_fetch c = False"

text \<open>The commands for one job that report its end.\<close>

fun reports :: "string \<Rightarrow> call \<Rightarrow> bool" where
  "reports j (Ack j') = (j = j')"
| "reports j (Fail j' e) = (j = j')"
| "reports j c = False"

section \<open>Middleware of the usual shape, and examples\<close>

text \<open>One piece of code after another; a throw skips what follows.\<close>

definition seq :: "'s task \<Rightarrow> 's task \<Rightarrow> 's task" where
  "seq f g = (\<lambda>s. case f s of (Some e, s') \<Rightarrow> (Some e, s') | (None, s') \<Rightarrow> g s')"

text \<open>User code that works on the store, run on a context.\<close>

definition on_store :: "'u task \<Rightarrow> 'u ctx task" where
  "on_store f = (\<lambda>s. case f (store s) of (r, u) \<Rightarrow> (r, s\<lparr>store := u\<rparr>))"

text \<open>
  The middleware \<^verbatim>\<open>async (ctx, next) => { pre; await next(); post }\<close>.
\<close>

definition around :: "'u task \<Rightarrow> 'u task \<Rightarrow> 'u ctx stage" where
  "around pre post next = seq (on_store pre) (seq next (on_store post))"

text \<open>The continuation of the last stage, which resolves at once.\<close>

definition done_task :: "'s task" where
  "done_task = (\<lambda>s. (None, s))"

text \<open>The two built-in stages on their own: the lookup in the registry, the invocation.\<close>

definition lookup_stage :: "(string \<Rightarrow> 'u jobFunction option) \<Rightarrow> 'u ctx task" where
  "lookup_stage reg = getJobFnFromRegistry reg done_task"

definition invoke_stage :: "'u ctx task" where
  "invoke_stage = callJobFn done_task"

text \<open>User code that never throws.\<close>

definition completes :: "'u task \<Rightarrow> bool" where
  "completes f \<longleftrightarrow> (\<forall>u. fst (f u) = None)"

text \<open>
  Examples. The store is a log of lines; \<open>say\<close> is user code that writes one.
  The job is the one of the specification's example scenario.
\<close>

definition say :: "string \<Rightarrow> string list task" where
  "say line = (\<lambda>u. (None, u @ [line]))"

definition noop_job :: jobPayload where
  "noop_job = \<lparr>jid = ''abc'', jobtype = ''Noop'', args = []\<rparr>"

definition noop_registry :: "string \<Rightarrow> string list jobFunction option" where
  "noop_registry t = (if t = ''Noop'' then Some (\<lambda>as u. (Inr Direct, u @ [''invoke''])) else None)"

definition boom_registry :: "string \<Rightarrow> string list jobFunction option" where
  "boom_registry t = (if t = ''Noop'' then Some (\<lambda>as u. (Inl (ThrownValue ''boom''), u)) else None)"

text \<open>A client and server that accept every command, and ones that reject some.\<close>

definition accepting :: "call list \<Rightarrow> call \<Rightarrow> thrown option" where
  "accepting cs c = None"

definition rejecting_fail :: "call list \<Rightarrow> call \<Rightarrow> thrown option" where
  "rejecting_fail cs c =
     (case c of Fail j e \<Rightarrow> Some (ThrownError (Error ''Connection closed'')) | _ \<Rightarrow> None)"

definition rejecting_ack :: "call list \<Rightarrow> call \<Rightarrow> thrown option" where
  "rejecting_ack cs c =
     (case c of Ack j \<Rightarrow> Some (ThrownError (Error ''Connection closed'')) | _ \<Rightarrow> None)"

definition rejecting_all :: "call list \<Rightarrow> call \<Rightarrow> thrown option" where
  "rejecting_all cs c = Some (ThrownError (Error ''Connection closed''))"

text \<open>
  The members of \<^verbatim>\<open>Object.prototype\<close>, which a registry object inherits, as what
  \<^verbatim>\<open>fn(...args)\<close> does with each (a plain call, so \<^verbatim>\<open>this\<close> is undefined;
  the arguments are not objects). Three return a value that is not a function; the
  others throw a \<^verbatim>\<open>TypeError\<close>, whose message differs between engines and is
  left at the error's name here.
\<close>

definition object_members :: "string \<Rightarrow> string list jobFunction option" where
  "object_members t =
     (if t \<in> set [''constructor'', ''toString'', ''isPrototypeOf'']
      then Some (\<lambda>as u. (Inr Direct, u))
      else if t \<in> set [''toLocaleString'', ''valueOf'', ''hasOwnProperty'',
                        ''propertyIsEnumerable'', ''__defineGetter__'', ''__defineSetter__'',
                        ''__lookupGetter__'', ''__lookupSetter__'', ''__proto__'']
      then Some (\<lambda>as u. (Inl (ThrownError (Error ''TypeError'')), u))
      else None)"

text \<open>
  A worker as its constructor leaves it, with the given middleware, registry entries
  and client; no listener is attached.
\<close>

definition new_worker ::
  "string list ctx stage list \<Rightarrow> (string \<Rightarrow> string list jobFunction option) \<Rightarrow>
   (call list \<Rightarrow> call \<Rightarrow> thrown option) \<Rightarrow> string list worker" where
  "new_worker ms reg cl =
     \<lparr>queues = [''default''], middleware = ms, registry = reg, inherited = object_members,
      client = cl, errorListener = False, processors = [], quieted = False, stopped = False,
      heartbeat = True, signals = True, stops = [], exited = None,
      calls = [], events = [], userState = []\<rparr>"

text \<open>A middleware that returns without calling its continuation.\<close>

definition short_circuit :: "string list ctx stage" where
  "short_circuit next = on_store (say ''skipped'')"

section \<open>Predicates of the statements\<close>

fun is_send :: "action \<Rightarrow> bool" where
  "is_send (Send command) = True"
| "is_send a = False"

fun is_ack :: "call \<Rightarrow> bool" where
  "is_ack (Ack j) = True"
| "is_ack c = False"

fun is_close :: "call \<Rightarrow> bool" where
  "is_close Close = True"
| "is_close c = False"

text \<open>What \<^verbatim>\<open>handle\<close> leaves alone: the fields of the loops and of the shutdown.\<close>

definition same_control :: "'u worker \<Rightarrow> 'u worker \<Rightarrow> bool" where
  "same_control w w' \<longleftrightarrow>
     processors w' = processors w \<and> quieted w' = quieted w \<and> stopped w' = stopped w \<and>
     stops w' = stops w \<and> exited w' = exited w \<and> queues w' = queues w \<and>
     heartbeat w' = heartbeat w \<and> signals w' = signals w \<and>
     errorListener w' = errorListener w"

text \<open>
  Every tick that the \<open>n\<close>-th call of \<^verbatim>\<open>stop()\<close> collected has resolved.
\<close>

definition drained :: "nat \<Rightarrow> 'u worker \<Rightarrow> bool" where
  "drained n w \<longleftrightarrow>
     n < length (stops w) \<and> awaiting (stops w ! n) = [] \<and> \<not> failed (stops w ! n)"

text \<open>
  Every call of \<^verbatim>\<open>stop()\<close> has resolved its promise on the draining path: its
  timeout is cleared, and the process has not exited.
\<close>

definition finished :: "'u worker \<Rightarrow> bool" where
  "finished w \<longleftrightarrow>
     exited w = None \<and>
     list_all (\<lambda>s. stage s = Finished \<and> \<not> timer s \<and> resolved s) (stops w)"

text \<open>A worker with one slot awaiting \<^verbatim>\<open>handle\<close> of the example job, one scheduled.\<close>

definition busy_worker :: "(call list \<Rightarrow> call \<Rightarrow> thrown option) \<Rightarrow> string list worker" where
  "busy_worker cl =
     (new_worker [] noop_registry cl)\<lparr>processors := [(''p1'', Handling noop_job), (''p2'', Scheduled)]\<rparr>"

text \<open>A worker with a slot in each state that a quieted worker can find it in.\<close>

definition mixed_worker :: "(call list \<Rightarrow> call \<Rightarrow> thrown option) \<Rightarrow> string list worker" where
  "mixed_worker cl =
     (new_worker [] noop_registry cl)
       \<lparr>processors := [(''p1'', Handling noop_job), (''p2'', Scheduled),
                        (''p3'', Fetching), (''p4'', Returned)]\<rparr>"

section \<open>Connection: lemmas\<close>

lemma invoked_callback: "invoked (callback p e m c) = invoked c @ [(p, e, m)]"
  by (simp add: callback_def settle_def Let_def split: option.splits)
lemma pending_callback: "pending (callback p e m c) = pending c"
  by (simp add: callback_def settle_def Let_def split: option.splits)
lemma next_callback: "next_promise (callback p e m c) = next_promise c"
  by (simp add: callback_def settle_def Let_def split: option.splits)
lemma dropped_callback: "dropped (callback p e m c) = dropped c"
  by (simp add: callback_def settle_def Let_def split: option.splits)
lemma lastError_callback: "lastError (callback p e m c) = lastError c"
  by (simp add: callback_def settle_def Let_def split: option.splits)
lemma promises_callback:
  "promises (callback p e m c) q =
     (if q = p \<and> promises c p = None then Some (outcome_of e m) else promises c q)"
  by (simp add: callback_def settle_def Let_def outcome_of_def split: option.splits)

lemma pending_act_other: "no_reply a \<Longrightarrow> pending (act a c) = pending c @ returned [a] c"
  by (cases a) (simp_all add: send_def Let_def onError_def onTimeout_def)

lemma next_promise_act: "a \<noteq> SocketClose \<Longrightarrow> next_promise (act a c) = next_promise c + length (returned [a] c)"
  by (cases a) (simp_all add: send_def Let_def onError_def onTimeout_def onMessage_def next_callback split: list.splits)

lemma invoked_forEach: "invoked (forEach_pending cbs e c) = invoked c @ map (\<lambda>p. (p, Some e, None)) cbs"
  by (induction cbs arbitrary: c) (simp_all add: invoked_callback)
lemma pending_forEach: "pending (forEach_pending cbs e c) = pending c"
  by (induction cbs arbitrary: c) (simp_all add: pending_callback)
lemma dropped_forEach: "dropped (forEach_pending cbs e c) = dropped c"
  by (induction cbs arbitrary: c) (simp_all add: dropped_callback)
lemma promises_forEach:
  "promises (forEach_pending cbs e c) q =
     (if q \<in> set cbs \<and> promises c q = None then Some (Rejected e) else promises c q)"
  by (induction cbs arbitrary: c) (auto simp add: promises_callback outcome_of_def)

lemma pending_onClose: "pending (onClose c) = pending c"
  by (simp add: onClose_def clearPending_def Let_def pending_forEach)
lemma invoked_onClose: "invoked (onClose c) = invoked c @ map (\<lambda>p. (p, Some (closing_error c), None)) (pending c)"
  by (simp add: onClose_def clearPending_def Let_def invoked_forEach closing_error_def)
lemma promises_onClose: "promises (onClose c) q =
     (if q \<in> set (pending c) \<and> promises c q = None then Some (Rejected (closing_error c)) else promises c q)"
  by (simp add: onClose_def clearPending_def Let_def promises_forEach closing_error_def)

lemma settled_act: "promises c p = Some oc \<Longrightarrow> promises (act a c) p = Some oc"
  by (cases a) (auto simp add: send_def Let_def onError_def onTimeout_def onMessage_def promises_callback promises_onClose split: list.splits)

lemma settled_run: "promises c p = Some oc \<Longrightarrow> promises (run t c) p = Some oc"
  by (induction t arbitrary: c) (simp_all add: settled_act)

lemma fifo_queue: "in_order (length (pending c)) t \<Longrightarrow>
   invoked (run t c) = invoked c @ zip (pending c @ returned t c) (replies t)"
proof (induction t arbitrary: c)
  case Nil then show ?case by simp
next
  case (Cons a t)
  show ?case
  proof (cases a)
    case (Send cmd)
    with Cons show ?thesis by (simp add: send_def Let_def)
  next
    case (ParserMessage m)
    with Cons.prems obtain cb rest where p: "pending c = cb # rest" by (cases "pending c") auto
    with Cons ParserMessage show ?thesis
      by (simp add: onMessage_def invoked_callback pending_callback)
  next
    case (ParserError e)
    with Cons.prems obtain cb rest where p: "pending c = cb # rest" by (cases "pending c") auto
    with Cons ParserError show ?thesis
      by (simp add: onMessage_def invoked_callback pending_callback)
  next
    case (SocketError e)
    with Cons show ?thesis by (simp add: onError_def)
  next
    case SocketTimeout
    with Cons show ?thesis by (simp add: onTimeout_def)
  next
    case SocketClose
    with Cons show ?thesis by simp
  qed
qed

lemma wf_send: "wf_queue c \<Longrightarrow> wf_queue (snd (send cmd c))"
  by (auto simp add: wf_queue_def send_def Let_def less_Suc_eq)

lemma wf_pop: "wf_queue c \<Longrightarrow> pending c = cb # rest \<Longrightarrow> wf_queue (callback cb e m (c\<lparr>pending := rest\<rparr>))"
  by (auto simp add: wf_queue_def pending_callback next_callback promises_callback)

lemma settle_fifo: "in_order (length (pending c)) t \<Longrightarrow> wf_queue c \<Longrightarrow> i < length (replies t) \<Longrightarrow>
   promises (run t c) ((pending c @ returned t c) ! i) = Some (outcome_of (fst (replies t ! i)) (snd (replies t ! i)))"
proof (induction t arbitrary: c i)
  case Nil then show ?case by simp
next
  case (Cons a t)
  show ?case
  proof (cases a)
    case (Send cmd)
    with Cons.prems Cons.IH[of "snd (send cmd c)" i] wf_send[of c cmd] show ?thesis by (simp add: send_def Let_def)
  next
    case (ParserMessage m)
    with Cons.prems obtain cb rest where p: "pending c = cb # rest" by (cases "pending c") auto
    let ?c = "callback cb None (Some m) (c\<lparr>pending := rest\<rparr>)"
    have wf: "wf_queue ?c" using wf_pop[OF Cons.prems(2) p] .
    have a: "act a c = ?c" using ParserMessage p by (simp add: onMessage_def)
    show ?thesis
    proof (cases i)
      case 0
      have "promises c cb = None" using Cons.prems(2) p by (simp add: wf_queue_def)
      then have "promises ?c cb = Some (outcome_of None (Some m))" by (simp add: promises_callback)
      then show ?thesis using 0 p a ParserMessage by (simp add: settled_run)
    next
      case (Suc j)
      have "in_order (length (pending ?c)) t" using Cons.prems(1) ParserMessage p by (simp add: pending_callback)
      from Cons.IH[OF this wf, of j] Suc Cons.prems(3) ParserMessage p a show ?thesis
        by (simp add: pending_callback)
    qed
  next
    case (ParserError e)
    with Cons.prems obtain cb rest where p: "pending c = cb # rest" by (cases "pending c") auto
    let ?c = "callback cb (Some e) None (c\<lparr>pending := rest\<rparr>)"
    have wf: "wf_queue ?c" using wf_pop[OF Cons.prems(2) p] .
    have a: "act a c = ?c" using ParserError p by (simp add: onMessage_def)
    show ?thesis
    proof (cases i)
      case 0
      have "promises c cb = None" using Cons.prems(2) p by (simp add: wf_queue_def)
      then have "promises ?c cb = Some (outcome_of (Some e) None)" by (simp add: promises_callback)
      then show ?thesis using 0 p a ParserError by (simp add: settled_run)
    next
      case (Suc j)
      have "in_order (length (pending ?c)) t" using Cons.prems(1) ParserError p by (simp add: pending_callback)
      from Cons.IH[OF this wf, of j] Suc Cons.prems(3) ParserError p a show ?thesis
        by (simp add: pending_callback)
    qed
  next
    case (SocketError e)
    have "wf_queue (onError e c)" using Cons.prems(2) by (simp add: wf_queue_def onError_def)
    with Cons.prems Cons.IH[of "onError e c" i] SocketError show ?thesis by (simp add: onError_def)
  next
    case SocketTimeout
    have "wf_queue (onTimeout c)" using Cons.prems(2) by (simp add: wf_queue_def onTimeout_def)
    with Cons.prems Cons.IH[of "onTimeout c" i] SocketTimeout show ?thesis by (simp add: onTimeout_def)
  next
    case SocketClose
    with Cons show ?thesis by simp
  qed
qed

lemma in_order_replies: "in_order n t \<Longrightarrow> length (replies t) \<le> n + length (returned t c)"
proof (induction t arbitrary: n c)
  case Nil then show ?case by simp
next
  case (Cons a t)
  then show ?case 
  proof (cases a)
    case (Send cmd)
    with Cons.prems Cons.IH[of "Suc n" "act a c"] show ?thesis by simp
  next
    case (ParserMessage m)
    with Cons.prems Cons.IH[of "n - 1" "act a c"] show ?thesis by (cases n) auto
  next
    case (ParserError m)
    with Cons.prems Cons.IH[of "n - 1" "act a c"] show ?thesis by (cases n) auto
  next
    case (SocketError m)
    with Cons.prems Cons.IH[of "n" "act a c"] show ?thesis by simp
  next
    case SocketTimeout
    with Cons.prems Cons.IH[of "n" "act a c"] show ?thesis by simp
  next
    case SocketClose
    with Cons.prems show ?thesis by simp
  qed
qed

lemma run_unanswered: "list_all no_reply t \<Longrightarrow> pending (run t c) = pending c @ returned t c"
proof (induction t arbitrary: c)
  case Nil then show ?case by simp
next
  case (Cons a t)
  then have "pending (run t (act a c)) = pending (act a c) @ returned t (act a c)" by simp
  moreover have "pending (act a c) = pending c @ returned [a] c" using Cons.prems by (simp add: pending_act_other)
  moreover have "returned (a # t) c = returned [a] c @ returned t (act a c)" by (cases a) simp_all
  ultimately show ?case by simp
qed

lemma invoked_unanswered: "list_all no_reply t \<Longrightarrow> invoked (run t c) = invoked c"
  by (induction t arbitrary: c; simp; case_tac a; simp add: send_def Let_def onError_def onTimeout_def)

lemma wf_unanswered: "list_all no_reply t \<Longrightarrow> wf_queue c \<Longrightarrow> wf_queue (run t c)"
proof (induction t arbitrary: c)
  case Nil then show ?case by simp
next
  case (Cons a t)
  have "wf_queue (act a c)" using Cons.prems
    by (cases a) (simp_all add: wf_send, simp_all add: wf_queue_def onError_def onTimeout_def)
  with Cons show ?case by simp
qed

lemma run_append: "run (s @ t) c = run t (run s c)"
  by (induction s arbitrary: c) simp_all

lemma count_sends: "length (returned t c) = length (filter (\<lambda>a. case a of Send _ \<Rightarrow> True | _ \<Rightarrow> False) t)"
  by (induction t arbitrary: c; simp; case_tac a; simp)

lemma next_forEach: "next_promise (forEach_pending cbs e c) = next_promise c"
  by (induction cbs arbitrary: c) (simp_all add: next_callback)

lemma next_promise_act_any: "next_promise (act a c) = next_promise c + length (returned [a] c)"
  by (cases a) (simp_all add: send_def Let_def onError_def onTimeout_def onMessage_def next_callback
       onClose_def clearPending_def next_forEach split: list.splits)

lemma returned_upt: "returned t c = [next_promise c ..< next_promise c + length (returned t c)]"
proof (induction t arbitrary: c)
  case Nil then show ?case by simp
next
  case (Cons a t)
  have n: "next_promise (act a c) = next_promise c + length (returned [a] c)" by (rule next_promise_act_any)
  define k where "k = length (returned t (act a c))"
  have ih: "returned t (act a c) = [next_promise (act a c) ..< next_promise (act a c) + k]"
    unfolding k_def by (rule Cons.IH)
  show ?case
  proof (cases a)
    case (Send cmd)
    have r: "returned (a # t) c = next_promise c # returned t (act a c)"
      using Send by (simp add: send_def Let_def)
    have m: "next_promise (act a c) = Suc (next_promise c)" using n Send by simp
    have u: "[next_promise c ..< next_promise c + Suc k] = next_promise c # [Suc (next_promise c) ..< Suc (next_promise c) + k]"
      by (subst upt_rec) simp
    have "returned (a # t) c = [next_promise c ..< next_promise c + Suc k]"
      unfolding u r using ih m by simp
    moreover have "length (returned (a # t) c) = Suc k" unfolding r k_def by simp
    ultimately show ?thesis by simp
  next
    case (ParserMessage x) then show ?thesis using ih n k_def by simp
  next
    case (ParserError x) then show ?thesis using ih n k_def by simp
  next
    case (SocketError x) then show ?thesis using ih n k_def by simp
  next
    case SocketTimeout then show ?thesis using ih n k_def by simp
  next
    case SocketClose then show ?thesis using ih n k_def by simp
  qed
qed

lemma distinct_returned: "distinct (returned t c)"
  by (subst returned_upt) simp

section \<open>Worker: lemmas\<close>

lemma seq_assoc: "seq (seq f g) h = seq f (seq g h)"
  by (auto simp add: seq_def fun_eq_iff split: prod.splits option.splits)
lemma seq_done_left: "seq done_task f = f"
  by (simp add: seq_def done_task_def)
lemma seq_done_right: "seq f done_task = f"
  by (auto simp add: seq_def done_task_def fun_eq_iff split: prod.splits option.splits)

lemma getJobFn_seq: "getJobFnFromRegistry reg next = seq (lookup_stage reg) next"
  by (auto simp add: lookup_stage_def getJobFnFromRegistry_def seq_def done_task_def fun_eq_iff Let_def split: option.splits)

lemma callJobFn_seq: "callJobFn next = seq invoke_stage next"
  by (auto simp add: invoke_stage_def callJobFn_def seq_def done_task_def fun_eq_iff Let_def split: option.splits prod.splits sum.splits fn_result.splits)

lemma compose_builtin: "compose [getJobFnFromRegistry reg, callJobFn] = seq (lookup_stage reg) invoke_stage"
  using getJobFn_seq[of reg "callJobFn (compose [])"]
  by (simp add: invoke_stage_def done_task_def)

lemma compose_around: "compose (map (\<lambda>(pre, post). around pre post) ms @ rest)
   = foldr (\<lambda>(pre, post) inner. seq (on_store pre) (seq inner (on_store post))) ms (compose rest)"
  by (induction ms) (auto simp add: around_def)

lemma handle_catch_cases:
  "handle_catch j e w =
     (case client w (calls w) (Fail (jid j) (wrapNonErrors e)) of
        Some e' \<Rightarrow> (Inl e', w\<lparr>calls := calls w @ [Fail (jid j) (wrapNonErrors e)]\<rparr>)
      | None \<Rightarrow> (Inr ''fail'', w\<lparr>calls := calls w @ [Fail (jid j) (wrapNonErrors e)],
                                 events := events w @ [EmitFail j e]\<rparr>))"
  by (simp add: handle_catch_def Let_def split: option.splits)

lemma handle_completed:
  "createExecutor w \<lparr>job = j, fn = None, store = userState w\<rparr> = (None, s) \<Longrightarrow>
   handle j w =
     (case client w (calls w) (Ack (jid j)) of
        None \<Rightarrow> (Inr ''ack'', w\<lparr>userState := store s, calls := calls w @ [Ack (jid j)]\<rparr>)
      | Some e \<Rightarrow> handle_catch j e (w\<lparr>userState := store s, calls := calls w @ [Ack (jid j)]\<rparr>))"
  by (simp add: handle_def Let_def split: option.splits)

lemma handle_threw:
  "createExecutor w \<lparr>job = j, fn = None, store = userState w\<rparr> = (Some e, s) \<Longrightarrow>
   handle j w = handle_catch j e (w\<lparr>userState := store s\<rparr>)"
  by (simp add: handle_def Let_def)


lemma handle_catch_frame: "same_control w (snd (handle_catch j e w))"
  by (simp add: handle_catch_cases same_control_def split: option.splits)

lemma handle_catch_calls: "\<exists>er. calls (snd (handle_catch j e w)) = calls w @ [Fail (jid j) er]"
  by (simp add: handle_catch_cases split: option.splits)

lemma handle_frame: "same_control w (snd (handle j w))"
proof (cases "createExecutor w \<lparr>job = j, fn = None, store = userState w\<rparr>")
  case (Pair r s)
  show ?thesis
  proof (cases r)
    case None
    with Pair show ?thesis
      by (simp add: handle_completed handle_catch_cases same_control_def split: option.splits)
  next
    case (Some e)
    with Pair show ?thesis
      by (simp add: handle_threw handle_catch_cases same_control_def split: option.splits)
  qed
qed

lemma handle_calls:
  "\<exists>new. calls (snd (handle j w)) = calls w @ new \<and> new \<noteq> [] \<and>
     (\<forall>c \<in> set new. reports (jid j) c)"
proof (cases "createExecutor w \<lparr>job = j, fn = None, store = userState w\<rparr>")
  case (Pair r s)
  show ?thesis
  proof (cases r)
    case None
    with Pair show ?thesis
      by (simp add: handle_completed handle_catch_cases split: option.splits)
  next
    case (Some e)
    with Pair show ?thesis
      by (simp add: handle_threw handle_catch_cases split: option.splits)
  qed
qed


lemma on_store_job: "job (snd (on_store f s)) = job s"
  by (simp add: on_store_def split: prod.splits)

lemma on_store_completes: "completes f \<Longrightarrow> fst (on_store f s) = None"
proof -
  assume "completes f"
  then have "fst (f (store s)) = None" by (simp add: completes_def)
  then show ?thesis by (cases "f (store s)") (simp add: on_store_def)
qed

lemma seq_throws_second:
  "fst (f s) = None \<Longrightarrow> fst (g (snd (f s))) = Some e \<Longrightarrow> fst (seq f g s) = Some e"
  by (cases "f s") (simp add: seq_def)

lemma seq_throws_first: "fst (f s) = Some e \<Longrightarrow> fst (seq f g s) = Some e"
  by (cases "f s") (simp add: seq_def)

lemma lookup_unregistered:
  "reg (jobtype (job s)) = None \<Longrightarrow>
   fst (seq (lookup_stage reg) k s) = Some (ThrownError (Error (''No jobtype registered: '' @ jobtype (job s))))"
  by (simp add: seq_def lookup_stage_def getJobFnFromRegistry_def Let_def)

lemma around_chain_throws:
  assumes "list_all (\<lambda>(pre, post). completes pre) ms"
    and "\<And>s. job s = j \<Longrightarrow> fst (k s) = Some e"
    and "job s = j"
  shows "fst (foldr (\<lambda>(pre, post) inner. seq (on_store pre) (seq inner (on_store post))) ms k s) = Some e"
  using assms
proof (induction ms arbitrary: s)
  case Nil then show ?case by simp
next
  case (Cons m ms)
  obtain pre post where m: "m = (pre, post)" by (cases m)
  let ?inner = "foldr (\<lambda>(pre, post) inner. seq (on_store pre) (seq inner (on_store post))) ms k"
  have c: "completes pre" using Cons.prems(1) m by simp
  have 1: "fst (on_store pre s) = None" using c by (rule on_store_completes)
  have 2: "job (snd (on_store pre s)) = j" using Cons.prems(3) by (simp add: on_store_job)
  have "fst (?inner (snd (on_store pre s))) = Some e"
    using Cons.IH[OF _ Cons.prems(2) 2] Cons.prems(1) by simp
  then have "fst (seq ?inner (on_store post) (snd (on_store pre s))) = Some e"
    by (rule seq_throws_first)
  with 1 have "fst (seq (on_store pre) (seq ?inner (on_store post)) s) = Some e"
    by (rule seq_throws_second)
  then show ?case using m by simp
qed

lemma createExecutor_around:
  "middleware w = map (\<lambda>(pre, post). around pre post) ms \<Longrightarrow>
   createExecutor w =
     foldr (\<lambda>(pre, post) inner. seq (on_store pre) (seq inner (on_store post))) ms
       (seq (lookup_stage (registry_get w)) invoke_stage)"
  by (simp only: createExecutor_def compose_around compose_builtin)


lemma registry_get_middleware: "registry_get (w\<lparr>middleware := ms\<rparr>) = registry_get w"
  by (simp add: registry_get_def fun_eq_iff split: option.splits)

lemma phase_of_set_phase:
  "phase_of pid (set_phase pid' ph w) = (if pid = pid' then Some ph else phase_of pid w)"
  by (simp add: phase_of_def set_phase_def update_conv')

lemma set_phase_fields:
  "calls (set_phase pid ph w) = calls w" "quieted (set_phase pid ph w) = quieted w"
  "exited (set_phase pid ph w) = exited w" "stops (set_phase pid ph w) = stops w"
  "events (set_phase pid ph w) = events w" "errorListener (set_phase pid ph w) = errorListener w"
  by (simp_all add: set_phase_def)

lemma phase_of_cong: "processors w' = processors w \<Longrightarrow> phase_of pid w' = phase_of pid w"
  by (simp add: phase_of_def)

lemma tick_ends_fields:
  "calls (tick_ends ok pid w) = calls w" "quieted (tick_ends ok pid w) = quieted w"
  "exited (tick_ends ok pid w) = exited w" "events (tick_ends ok pid w) = events w"
  "errorListener (tick_ends ok pid w) = errorListener w"
  "processors (tick_ends ok pid w) = processors w"
  "phase_of p (tick_ends ok pid w) = phase_of p w"
  by (simp_all add: tick_ends_def phase_of_def)

lemma tick_ends_stops:
  "map stage (stops (tick_ends ok pid w)) = map stage (stops w)"
  "map timer (stops (tick_ends ok pid w)) = map timer (stops w)"
  "map resolved (stops (tick_ends ok pid w)) = map resolved (stops w)"
  by (simp_all add: tick_ends_def comp_def)

lemma tick_finally_fields:
  "calls (tick_finally pid w) = calls w" "quieted (tick_finally pid w) = quieted w"
  "exited (tick_finally pid w) = exited w" "events (tick_finally pid w) = events w"
  "errorListener (tick_finally pid w) = errorListener w"
  "phase_of p (tick_finally pid w) = (if p = pid then Some Scheduled else phase_of p w)"
  "map stage (stops (tick_finally pid w)) = map stage (stops w)"
  "map timer (stops (tick_finally pid w)) = map timer (stops w)"
  "map resolved (stops (tick_finally pid w)) = map resolved (stops w)"
  by (simp_all add: tick_finally_def set_phase_fields phase_of_set_phase tick_ends_fields
        tick_ends_stops)

lemma tick_rejects_fields:
  "calls (tick_rejects pid w) = calls w" "quieted (tick_rejects pid w) = quieted w"
  "exited (tick_rejects pid w) = exited w" "events (tick_rejects pid w) = events w"
  "errorListener (tick_rejects pid w) = errorListener w"
  "phase_of p (tick_rejects pid w) = (if p = pid then Some Failed else phase_of p w)"
  "map stage (stops (tick_rejects pid w)) = map stage (stops w)"
  "map timer (stops (tick_rejects pid w)) = map timer (stops w)"
  "map resolved (stops (tick_rejects pid w)) = map resolved (stops w)"
  by (simp_all add: tick_rejects_def set_phase_fields phase_of_set_phase tick_ends_fields
        tick_ends_stops)

lemma tick_catch_fields:
  "calls (tick_catch e pid w) = calls w" "quieted (tick_catch e pid w) = quieted w"
  "exited (tick_catch e pid w) = exited w"
  "errorListener (tick_catch e pid w) = errorListener w"
  "events (tick_catch e pid w) = events w @ (if errorListener w then [EmitError e] else [])"
  "phase_of p (tick_catch e pid w) =
     (if p = pid then Some (if errorListener w then Sleeping else Failed) else phase_of p w)"
  "map stage (stops (tick_catch e pid w)) = map stage (stops w)"
  "map timer (stops (tick_catch e pid w)) = map timer (stops w)"
  "map resolved (stops (tick_catch e pid w)) = map resolved (stops w)"
  by (simp_all add: tick_catch_def set_phase_fields phase_of_set_phase tick_rejects_fields)
     (simp add: phase_of_def)

lemma tick_fields:
  "quieted (tick pid w) = quieted w" "exited (tick pid w) = exited w"
  "events (tick pid w) = events w" "errorListener (tick pid w) = errorListener w"
  "stops (tick pid w) = stops w"
  "phase_of p (tick pid w) =
     (if p = pid then Some (if quieted w then Returned else Fetching) else phase_of p w)"
  "calls (tick pid w) = calls w @ (if quieted w then [] else [Fetch (queues w)])"
  by (simp_all add: tick_def set_phase_fields phase_of_set_phase) (simp add: phase_of_def)

lemma tick_fetched_fields:
  "calls (tick_fetched r pid w) = calls w" "quieted (tick_fetched r pid w) = quieted w"
  "exited (tick_fetched r pid w) = exited w"
  "errorListener (tick_fetched r pid w) = errorListener w"
  "map stage (stops (tick_fetched r pid w)) = map stage (stops w)"
  "map timer (stops (tick_fetched r pid w)) = map timer (stops w)"
  "map resolved (stops (tick_fetched r pid w)) = map resolved (stops w)"
  "p \<noteq> pid \<Longrightarrow> phase_of p (tick_fetched r pid w) = phase_of p w"
  by (simp_all add: tick_fetched_def tick_catch_fields tick_finally_fields set_phase_fields
        phase_of_set_phase split: sum.splits option.splits)

lemma phase_of_tick_fetched:
  "phase_of pid (tick_fetched r pid w) =
     Some (case r of Inl e \<Rightarrow> (if errorListener w then Sleeping else Failed)
           | Inr None \<Rightarrow> Scheduled | Inr (Some j) \<Rightarrow> Handling j)"
  by (simp add: tick_fetched_def tick_catch_fields tick_finally_fields phase_of_set_phase
        split: sum.splits option.splits)

lemma handle_frame_fields:
  "processors (snd (handle j w)) = processors w" "quieted (snd (handle j w)) = quieted w"
  "exited (snd (handle j w)) = exited w" "stops (snd (handle j w)) = stops w"
  "errorListener (snd (handle j w)) = errorListener w"
  using handle_frame[of w j] by (simp_all add: same_control_def)

lemma tick_handle_unfold:
  "tick_handle j pid w =
     (case fst (handle j w) of
        Inl e \<Rightarrow> tick_catch e pid (snd (handle j w))
      | Inr marker \<Rightarrow> tick_finally pid (snd (handle j w)))"
  by (simp add: tick_handle_def split: prod.splits sum.splits)

lemma tick_handle_fields:
  "quieted (tick_handle j pid w) = quieted w" "exited (tick_handle j pid w) = exited w"
  "errorListener (tick_handle j pid w) = errorListener w"
  "map stage (stops (tick_handle j pid w)) = map stage (stops w)"
  "map timer (stops (tick_handle j pid w)) = map timer (stops w)"
  "map resolved (stops (tick_handle j pid w)) = map resolved (stops w)"
  "calls (tick_handle j pid w) = calls (snd (handle j w))"
  "p \<noteq> pid \<Longrightarrow> phase_of p (tick_handle j pid w) = phase_of p w"
  by (simp_all add: tick_handle_unfold tick_catch_fields tick_finally_fields handle_frame_fields
        phase_of_cong[of "snd (handle j w)" w] split: sum.splits)

lemma phase_of_tick_handle:
  "phase_of pid (tick_handle j pid w) =
     Some (case fst (handle j w) of
             Inl e \<Rightarrow> (if errorListener w then Sleeping else Failed)
           | Inr marker \<Rightarrow> Scheduled)"
  by (simp add: tick_handle_unfold tick_catch_fields tick_finally_fields handle_frame_fields
        split: sum.splits)

lemma tick_events:
  "events (tick_finally pid w) = events w"
  "events (tick_catch e pid w) = events w @ (if errorListener w then [EmitError e] else [])"
  by (simp_all add: tick_finally_fields tick_catch_fields)

lemma stop_fields:
  "quieted (stop w)" "exited (stop w) = exited w" "calls (stop w) = calls w"
  "processors (stop w) = processors w" "stopped (stop w)" "\<not> heartbeat (stop w)"
  "\<not> signals (stop w)" "errorListener (stop w) = errorListener w"
  "map stage (stops (stop w)) = map stage (stops w) @ [Draining]"
  "map timer (stops (stop w)) = map timer (stops w) @ [True]"
  "map resolved (stops (stop w)) = map resolved (stops w) @ [False]"
  by (simp_all add: stop_def quiet_def inProgress_def Let_def)

lemma update_stop_fields:
  "quieted (update_stop n f w) = quieted w" "exited (update_stop n f w) = exited w"
  "calls (update_stop n f w) = calls w" "processors (update_stop n f w) = processors w"
  "errorListener (update_stop n f w) = errorListener w"
  "events (update_stop n f w) = events w"
  "phase_of p (update_stop n f w) = phase_of p w"
  by (simp_all add: update_stop_def phase_of_def)

lemma shutdown_fields:
  "quieted (stop_drained n w) = quieted w" "quieted (stop_warned n w) = quieted w"
  "quieted (stop_closed n r w) = quieted w" "quieted (stop_timeout n w) = quieted w"
  "phase_of p (stop_drained n w) = phase_of p w" "phase_of p (stop_warned n w) = phase_of p w"
  "phase_of p (stop_closed n r w) = phase_of p w" "phase_of p (stop_timeout n w) = phase_of p w"
  "calls (stop_drained n w) = calls w @ [Close]" "calls (stop_warned n w) = calls w"
  "calls (stop_closed n r w) = calls w" "calls (stop_timeout n w) = calls w @ [Close]"
  by (simp_all add: stop_drained_def stop_warned_def stop_closed_def stop_timeout_def
        update_stop_fields phase_of_def update_stop_def split: option.splits)

lemma step_quieted: "quieted w \<Longrightarrow> quieted (step i w)"
  by (cases i)
     (simp_all add: step_def tick_fields tick_fetched_fields tick_handle_fields tick_finally_fields
        quiet_def stop_fields shutdown_fields split: option.splits phase.splits)

lemma handle_no_fetch: "filter is_fetch (calls (snd (handle j w))) = filter is_fetch (calls w)"
proof -
  obtain new where n: "calls (snd (handle j w)) = calls w @ new" "\<forall>c \<in> set new. reports (jid j) c"
    using handle_calls[of j w] by blast
  have "\<forall>c \<in> set new. \<not> is_fetch c"
  proof
    fix c assume "c \<in> set new"
    with n(2) have "reports (jid j) c" by blast
    then show "\<not> is_fetch c" by (cases c) simp_all
  qed
  then have "filter is_fetch new = []" by (simp add: filter_empty_conv)
  with n(1) show ?thesis by simp
qed

lemma step_no_fetch: "quieted w \<Longrightarrow> filter is_fetch (calls (step i w)) = filter is_fetch (calls w)"
  by (cases i)
     (simp_all add: step_def tick_fields tick_fetched_fields tick_handle_fields tick_finally_fields
        handle_no_fetch quiet_def stop_fields shutdown_fields split: option.splits phase.splits)

lemma step_returned: "phase_of pid w = Some Returned \<Longrightarrow> phase_of pid (step i w) = Some Returned"
proof (cases i)
  case (SetTick p)
  then show ?thesis if "phase_of pid w = Some Returned" using that
    by (cases "p = pid") (auto simp add: step_def tick_fields split: option.splits phase.splits)
next
  case (FetchSettled p r)
  then show ?thesis if "phase_of pid w = Some Returned" using that
    by (cases "p = pid") (auto simp add: step_def tick_fetched_fields split: option.splits phase.splits)
next
  case (HandleSettled p)
  then show ?thesis if "phase_of pid w = Some Returned" using that
    by (cases "p = pid") (auto simp add: step_def tick_handle_fields split: option.splits phase.splits)
next
  case (SleepSettled p)
  then show ?thesis if "phase_of pid w = Some Returned" using that
    by (cases "p = pid") (auto simp add: step_def tick_finally_fields split: option.splits phase.splits)
next
  case Quiet
  then show ?thesis if "phase_of pid w = Some Returned" using that
    by (simp add: step_def quiet_def phase_of_def)
next
  case Stop
  then show ?thesis if "phase_of pid w = Some Returned" using that
    by (simp add: step_def phase_of_def stop_fields)
next
  case (AllSettled n)
  then show ?thesis if "phase_of pid w = Some Returned" using that
    by (simp add: step_def shutdown_fields)
next
  case (CloseSettled n r)
  then show ?thesis if "phase_of pid w = Some Returned" using that
    by (simp add: step_def shutdown_fields)
next
  case (TimerFires n)
  then show ?thesis if "phase_of pid w = Some Returned" using that
    by (simp add: step_def shutdown_fields)
qed

lemma steps_quieted: "quieted w \<Longrightarrow> quieted (steps is w)"
  by (induction "is" arbitrary: w) (simp_all add: step_quieted)

lemma steps_no_fetch: "quieted w \<Longrightarrow> filter is_fetch (calls (steps is w)) = filter is_fetch (calls w)"
  by (induction "is" arbitrary: w) (simp_all add: step_quieted step_no_fetch)

lemma steps_returned: "phase_of pid w = Some Returned \<Longrightarrow> phase_of pid (steps is w) = Some Returned"
  by (induction "is" arbitrary: w) (simp_all add: step_returned)

lemma handle_no_close: "filter is_close (calls (snd (handle j w))) = filter is_close (calls w)"
proof -
  obtain new where n: "calls (snd (handle j w)) = calls w @ new" "\<forall>c \<in> set new. reports (jid j) c"
    using handle_calls[of j w] by blast
  have "\<forall>c \<in> set new. \<not> is_close c"
  proof
    fix c assume "c \<in> set new"
    with n(2) have "reports (jid j) c" by blast
    then show "\<not> is_close c" by (cases c) simp_all
  qed
  then have "filter is_close new = []" by (simp add: filter_empty_conv)
  with n(1) show ?thesis by simp
qed

lemma slot_step_control:
  assumes "slot_input i"
  shows "map stage (stops (step i w)) = map stage (stops w)"
    "map timer (stops (step i w)) = map timer (stops w)"
    "map resolved (stops (step i w)) = map resolved (stops w)"
    "exited (step i w) = exited w"
    "filter is_close (calls (step i w)) = filter is_close (calls w)"
  using assms
  by (cases i; simp add: step_def tick_fields tick_fetched_fields tick_handle_fields
        tick_finally_fields handle_no_close quiet_def split: option.splits phase.splits)+

lemma slot_steps_control:
  assumes "list_all slot_input is"
  shows "map stage (stops (steps is w)) = map stage (stops w) \<and>
    map timer (stops (steps is w)) = map timer (stops w) \<and>
    map resolved (stops (steps is w)) = map resolved (stops w) \<and>
    exited (steps is w) = exited w \<and>
    filter is_close (calls (steps is w)) = filter is_close (calls w)"
  using assms by (induction "is" arbitrary: w) (simp_all add: slot_step_control)

lemma steps_append: "steps (xs @ ys) w = steps ys (steps xs w)"
  by (induction xs arbitrary: w) simp_all

lemma exited_steps: "exited w = Some n \<Longrightarrow> steps is w = w"
  by (induction "is" arbitrary: w) (simp_all add: step_def)

lemma finished_shape:
  "finished w \<longleftrightarrow>
     exited w = None \<and> list_all (\<lambda>g. g = Finished) (map stage (stops w)) \<and>
     list_all (\<lambda>t. \<not> t) (map timer (stops w)) \<and> list_all (\<lambda>r. r) (map resolved (stops w))"
  by (auto simp add: finished_def list_all_iff)

lemma finished_nth:
  assumes "finished w" "n < length (stops w)"
  shows "stage (stops w ! n) = Finished" "\<not> timer (stops w ! n)"
  using assms by (simp_all add: finished_def list_all_length)

lemma step_finished:
  assumes "finished w" "\<not> is_stop i"
  shows "finished (step i w) \<and> filter is_close (calls (step i w)) = filter is_close (calls w)"
proof (cases "slot_input i")
  case True
  then show ?thesis using assms(1) by (simp add: finished_shape slot_step_control)
next
  case False
  have e: "exited w = None" using assms(1) by (simp add: finished_def)
  from False assms(2) show ?thesis
  proof (cases i)
    case (AllSettled n)
    then show ?thesis using assms(1) finished_nth[OF assms(1), of n] e by (auto simp add: step_def)
  next
    case (CloseSettled n r)
    then show ?thesis using assms(1) finished_nth[OF assms(1), of n] e by (auto simp add: step_def)
  next
    case (TimerFires n)
    then show ?thesis using assms(1) finished_nth[OF assms(1), of n] e by (auto simp add: step_def)
  qed simp_all
qed

lemma steps_finished:
  assumes "finished w" "list_all (\<lambda>i. \<not> is_stop i) is"
  shows "finished (steps is w) \<and> filter is_close (calls (steps is w)) = filter is_close (calls w)"
  using assms by (induction "is" arbitrary: w) (simp_all add: step_finished)

lemma first_stop_shape:
  assumes "exited w = None" "stops w = []" "list_all slot_input is"
  shows "\<exists>s. stops (steps is (stop w)) = [s] \<and> stage s = Draining \<and> timer s"
    and "exited (steps is (stop w)) = None"
    and "filter is_close (calls (steps is (stop w))) = filter is_close (calls w)"
proof -
  let ?w = "steps is (stop w)"
  have c: "map stage (stops ?w) = [Draining]" "map timer (stops ?w) = [True]"
    "exited ?w = None" "filter is_close (calls ?w) = filter is_close (calls w)"
    using slot_steps_control[OF assms(3), of "stop w"] assms(1,2) by (simp_all add: stop_fields)
  from c(1) obtain s where s: "stops ?w = [s]" by (cases "stops ?w") auto
  with c(1,2) show "\<exists>s. stops ?w = [s] \<and> stage s = Draining \<and> timer s" by simp
  show "exited ?w = None" by (rule c(3))
  show "filter is_close (calls ?w) = filter is_close (calls w)" by (rule c(4))
qed

lemma stop_drains:
  assumes "exited w = None" "stops w = []" "list_all slot_input is"
    and "drained 0 (steps is (stop w))"
  shows "finished (steps (is @ [AllSettled 0, CloseSettled 0 None]) (stop w))"
    and "map resolved (stops (steps (is @ [AllSettled 0, CloseSettled 0 None]) (stop w))) = [True]"
    and "filter is_close (calls (steps (is @ [AllSettled 0, CloseSettled 0 None]) (stop w))) =
           filter is_close (calls w) @ [Close]"
proof -
  let ?w = "steps is (stop w)"
  obtain s where s: "stops ?w = [s]" "stage s = Draining" "timer s"
    using first_stop_shape(1)[OF assms(1-3)] by blast
  have e: "exited ?w = None" and c: "filter is_close (calls ?w) = filter is_close (calls w)"
    using first_stop_shape(2,3)[OF assms(1-3)] by blast+
  have d: "awaiting s = []" "\<not> failed s" using assms(4) s(1) by (simp_all add: drained_def)
  have 1: "step (AllSettled 0) ?w = stop_drained 0 ?w" using s d e by (simp add: step_def)
  have 2: "step (CloseSettled 0 None) (stop_drained 0 ?w) = stop_closed 0 None (stop_drained 0 ?w)"
    using s e by (simp add: step_def stop_drained_def update_stop_def)
  have 3: "steps (is @ [AllSettled 0, CloseSettled 0 None]) (stop w) =
           stop_closed 0 None (stop_drained 0 ?w)"
    by (simp add: steps_append 1 2)
  show "finished (steps (is @ [AllSettled 0, CloseSettled 0 None]) (stop w))"
    unfolding 3 using s e by (simp add: finished_def stop_closed_def stop_drained_def update_stop_def)
  show "map resolved (stops (steps (is @ [AllSettled 0, CloseSettled 0 None]) (stop w))) = [True]"
    unfolding 3 using s e by (simp add: stop_closed_def stop_drained_def update_stop_def)
  show "filter is_close (calls (steps (is @ [AllSettled 0, CloseSettled 0 None]) (stop w))) =
           filter is_close (calls w) @ [Close]"
    unfolding 3 using c by (simp add: stop_closed_def stop_drained_def update_stop_def)
qed

lemma stop_times_out:
  assumes "exited w = None" "stops w = []" "list_all slot_input is"
  shows "exited (steps (is @ [TimerFires 0]) (stop w)) = Some 1"
    and "filter is_close (calls (steps (is @ [TimerFires 0]) (stop w))) =
           filter is_close (calls w) @ [Close]"
proof -
  let ?w = "steps is (stop w)"
  obtain s where s: "stops ?w = [s]" "stage s = Draining" "timer s"
    using first_stop_shape(1)[OF assms(1-3)] by blast
  have e: "exited ?w = None" and c: "filter is_close (calls ?w) = filter is_close (calls w)"
    using first_stop_shape(2,3)[OF assms(1-3)] by blast+
  have 1: "step (TimerFires 0) ?w = stop_timeout 0 ?w" using s e by (simp add: step_def)
  have 3: "steps (is @ [TimerFires 0]) (stop w) = stop_timeout 0 ?w"
    by (simp add: steps_append 1)
  show "exited (steps (is @ [TimerFires 0]) (stop w)) = Some 1"
    unfolding 3 by (simp add: stop_timeout_def)
  show "filter is_close (calls (steps (is @ [TimerFires 0]) (stop w))) =
           filter is_close (calls w) @ [Close]"
    unfolding 3 using c by (simp add: stop_timeout_def update_stop_def)
qed

lemma quieted_reschedule:
  assumes "quieted w" "exited w = None"
    and "phase_of pid w = Some Scheduled \<or> phase_of pid w = Some Failed \<or>
         phase_of pid w = Some Sleeping"
  shows "phase_of pid (steps [SleepSettled pid, SetTick pid] w) = Some Returned"
    and "calls (steps [SleepSettled pid, SetTick pid] w) = calls w"
  using assms
  by (auto simp add: step_def tick_fields tick_finally_fields)

lemma handle_reports:
  "take (length (calls w)) (calls (snd (handle j w))) = calls w \<and>
   (\<exists>c \<in> set (drop (length (calls w)) (calls (snd (handle j w)))). reports (jid j) c)"
proof -
  obtain new where n: "calls (snd (handle j w)) = calls w @ new" "new \<noteq> []"
      "\<forall>c \<in> set new. reports (jid j) c"
    using handle_calls[of j w] by blast
  from n(2) obtain c where "c \<in> set new" by (cases new) auto
  with n show ?thesis by auto
qed

lemma tick_handle_rescheduled:
  "phase_of pid (tick_handle j pid w) = Some Scheduled \<or>
   phase_of pid (tick_handle j pid w) = Some Failed \<or>
   phase_of pid (tick_handle j pid w) = Some Sleeping"
  by (simp add: phase_of_tick_handle split: sum.splits)

lemma quieted_winds_down:
  assumes "quieted w" "exited w = None"
    and "phase_of pid w = Some Scheduled \<or> phase_of pid w = Some Failed \<or>
         phase_of pid w = Some Sleeping \<or> phase_of pid w = Some (Handling j)"
  shows "phase_of pid (steps [HandleSettled pid, SleepSettled pid, SetTick pid] w) = Some Returned"
proof -
  let ?w = "step (HandleSettled pid) w"
  have q: "quieted ?w" using assms(1) by (rule step_quieted)
  have e: "exited ?w = None" using assms(2) by (simp add: slot_step_control)
  have p: "phase_of pid ?w = Some Scheduled \<or> phase_of pid ?w = Some Failed \<or>
           phase_of pid ?w = Some Sleeping"
    using assms(2,3) tick_handle_rescheduled[of pid j w] by (auto simp add: step_def)
  have "steps [HandleSettled pid, SleepSettled pid, SetTick pid] w =
        steps [SleepSettled pid, SetTick pid] ?w" by simp
  then show ?thesis using quieted_reschedule(1)[OF q e p] by simp
qed

lemma quieted_fetch_settles:
  assumes "quieted w" "exited w = None" "phase_of pid w = Some Fetching"
  shows "calls (step (FetchSettled pid r) w) = calls w"
    and "phase_of pid (step (FetchSettled pid r) w) =
      Some (case r of Inl e \<Rightarrow> (if errorListener w then Sleeping else Failed)
            | Inr None \<Rightarrow> Scheduled | Inr (Some j) \<Rightarrow> Handling j)"
    and "phase_of pid (steps [FetchSettled pid r, HandleSettled pid, SleepSettled pid, SetTick pid] w) =
           Some Returned"
proof -
  let ?w = "step (FetchSettled pid r) w"
  have s: "?w = tick_fetched r pid w" using assms by (simp add: step_def)
  show "calls ?w = calls w" by (simp add: s tick_fetched_fields)
  show p: "phase_of pid ?w =
      Some (case r of Inl e \<Rightarrow> (if errorListener w then Sleeping else Failed)
            | Inr None \<Rightarrow> Scheduled | Inr (Some j) \<Rightarrow> Handling j)"
    by (simp add: s phase_of_tick_fetched)
  have q: "quieted ?w" using assms(1) by (rule step_quieted)
  have e: "exited ?w = None" using assms(2) by (simp add: slot_step_control)
  have "\<exists>j. phase_of pid ?w = Some Scheduled \<or> phase_of pid ?w = Some Failed \<or>
         phase_of pid ?w = Some Sleeping \<or> phase_of pid ?w = Some (Handling j)"
    unfolding p by (cases r) (auto split: option.splits)
  then obtain j where "phase_of pid ?w = Some Scheduled \<or> phase_of pid ?w = Some Failed \<or>
         phase_of pid ?w = Some Sleeping \<or> phase_of pid ?w = Some (Handling j)" by blast
  from quieted_winds_down[OF q e this]
  show "phase_of pid (steps [FetchSettled pid r, HandleSettled pid, SleepSettled pid, SetTick pid] w) =
           Some Returned" by simp
qed

text \<open>
  A jobtype that names an inherited property is found by the lookup although the
  registry has no entry for it: on a worker with an empty registry the job is not
  failed but acknowledged.
\<close>

lemma inherited_jobtype_acked:
  "registry (new_worker [] (\<lambda>t. None) accepting) ''toString'' = None \<and>
   fst (handle \<lparr>jid = ''abc'', jobtype = ''toString'', args = []\<rparr>
          (new_worker [] (\<lambda>t. None) accepting)) = Inr ''ack'' \<and>
   calls (snd (handle \<lparr>jid = ''abc'', jobtype = ''toString'', args = []\<rparr>
          (new_worker [] (\<lambda>t. None) accepting))) = [Ack ''abc'']"
  by (simp add: handle_def handle_catch_def createExecutor_def getJobFnFromRegistry_def callJobFn_def
        new_worker_def registry_get_def object_members_def accepting_def Let_def)

section \<open>Connection: the properties\<close>

text \<open>
  C1. On a connection with no handler waiting, let commands be sent by
  \<^verbatim>\<open>send\<close> and let the parser's messages (or errors) arrive, each after the
  command it answers, in any interleaving, the socket staying open. Then the handlers
  are called in arrival order, the \<open>i\<close>-th arrival calling the handler of the
  \<open>i\<close>-th \<^verbatim>\<open>send\<close> and settling exactly the promise that this \<^verbatim>\<open>send\<close>
  returned: the pairing is positional, one handler pushed per \<^verbatim>\<open>send\<close>, one
  popped per arrival.
\<close>

theorem fifo_correlation:
  assumes "pending c = []"
    and "\<forall>p. next_promise c \<le> p \<longrightarrow> promises c p = None"
    and "in_order 0 t"
  shows "invoked (run t c) = invoked c @ zip (returned t c) (replies t) \<and>
         distinct (returned t c) \<and>
         length (replies t) \<le> length (returned t c) \<and>
         (\<forall>i < length (replies t).
            promises (run t c) (returned t c ! i) =
              Some (outcome_of (fst (replies t ! i)) (snd (replies t ! i))))"
proof -
  have io: "in_order (length (pending c)) t" using assms by simp
  have wf: "wf_queue c" using assms by (simp add: wf_queue_def)
  have 1: "invoked (run t c) = invoked c @ zip (returned t c) (replies t)"
    using fifo_queue[OF io] assms(1) by simp
  have 2: "length (replies t) \<le> length (returned t c)"
    using in_order_replies[OF assms(3), of c] by simp
  have 3: "\<forall>i < length (replies t).
            promises (run t c) (returned t c ! i) =
              Some (outcome_of (fst (replies t ! i)) (snd (replies t ! i)))"
    using settle_fifo[OF io wf] assms(1) by simp
  show ?thesis using 1 2 3 distinct_returned by blast
qed

theorem fifo_correlation_witness:
  "pending fresh = [] \<and> next_promise fresh = 0 \<and> promises fresh = (\<lambda>p. None) \<and>
   in_order 0 [Send [''FETCH'', ''default''], Send [''BEAT''], ParserMessage ''job'',
               Send [''ACK'', ''abc''], ParserMessage ''OK'', ParserError (Error ''bad'')] \<and>
   returned [Send [''FETCH'', ''default''], Send [''BEAT''], ParserMessage ''job'',
               Send [''ACK'', ''abc''], ParserMessage ''OK'', ParserError (Error ''bad'')] fresh = [0, 1, 2] \<and>
   invoked (run [Send [''FETCH'', ''default''], Send [''BEAT''], ParserMessage ''job'',
               Send [''ACK'', ''abc''], ParserMessage ''OK'', ParserError (Error ''bad'')] fresh) =
     [(0, None, Some ''job''), (1, None, Some ''OK''), (2, Some (Error ''bad''), None)]"
  using fifo_correlation [of fresh "[Send [''FETCH'', ''default''], Send [''BEAT''], ParserMessage ''job'',
               Send [''ACK'', ''abc''], ParserMessage ''OK'', ParserError (Error ''bad'')]"]
  by (simp add: fresh_def send_def onMessage_def callback_def settle_def Let_def)

text \<open>
  C2. On a connection with no handler waiting, let \<open>N\<close> commands be sent and no
  response arrive (socket errors and timeouts may occur). When the socket closes, the
  queue holds the \<open>N\<close> handlers of these commands, all different, and
  \<^verbatim>\<open>onClose\<close> calls each of them exactly once, in order, with the socket's last
  error or else the error \<^verbatim>\<open>Connection closed\<close>; every one of the \<open>N\<close>
  promises is rejected with that error.
\<close>

theorem close_flushes_pending:
  assumes "pending c = []"
    and "\<forall>p. next_promise c \<le> p \<longrightarrow> promises c p = None"
    and "list_all no_reply t"
  shows "pending (run t c) = returned t c \<and>
         length (returned t c) = length (filter is_send t) \<and>
         distinct (returned t c) \<and>
         invoked (run (t @ [SocketClose]) c) =
           invoked c @ map (\<lambda>p. (p, Some (closing_error (run t c)), None)) (returned t c) \<and>
         (\<forall>p \<in> set (returned t c).
            promises (run (t @ [SocketClose]) c) p = Some (Rejected (closing_error (run t c))))"
proof -
  have wf: "wf_queue c" using assms by (simp add: wf_queue_def)
  have p: "pending (run t c) = returned t c" using run_unanswered[OF assms(3), of c] assms(1) by simp
  have n: "length (returned t c) = length (filter is_send t)"
    by (induction t arbitrary: c; simp; case_tac a; simp)
  have i: "invoked (run (t @ [SocketClose]) c) =
           invoked c @ map (\<lambda>p. (p, Some (closing_error (run t c)), None)) (returned t c)"
    by (simp add: run_append invoked_onClose p invoked_unanswered[OF assms(3)])
  have wf': "wf_queue (run t c)" using wf_unanswered[OF assms(3) wf] .
  have s: "\<forall>p \<in> set (returned t c).
            promises (run (t @ [SocketClose]) c) p = Some (Rejected (closing_error (run t c)))"
    using wf' p by (simp add: run_append promises_onClose wf_queue_def)
  show ?thesis using p n i s distinct_returned by blast
qed

theorem close_flushes_pending_witness:
  "pending fresh = [] \<and> next_promise fresh = 0 \<and> promises fresh = (\<lambda>p. None) \<and>
   list_all no_reply [Send [''FETCH'', ''default''], SocketError (Error ''ECONNRESET''), Send [''BEAT'']] \<and>
   invoked (run ([Send [''FETCH'', ''default''], SocketError (Error ''ECONNRESET''), Send [''BEAT'']] @ [SocketClose]) fresh) =
     [(0, Some (Error ''ECONNRESET''), None), (1, Some (Error ''ECONNRESET''), None)] \<and>
   invoked (run ([Send [''FETCH'', ''default''], Send [''BEAT'']] @ [SocketClose]) fresh) =
     [(0, Some (Error ''Connection closed''), None), (1, Some (Error ''Connection closed''), None)]"
  using close_flushes_pending [of fresh "[Send [''FETCH'', ''default''], SocketError (Error ''ECONNRESET''), Send [''BEAT'']]"]
  by (simp add: fresh_def send_def onError_def onClose_def clearPending_def closing_error_def
        callback_def settle_def Let_def)

text \<open>
  C9. \<^verbatim>\<open>clearPending\<close> calls every waiting handler and leaves the queue as it
  was, and so does \<^verbatim>\<open>onClose\<close>: after the flush at close time the queue still
  holds every flushed handler. A message or parser error that arrives afterwards does
  not find the queue empty (nothing is dropped): it pops the oldest flushed handler and
  calls it a second time.
\<close>

theorem clearPending_keeps_queue:
  "pending (clearPending err c) = pending c \<and>
   pending (onClose c) = pending c \<and>
   invoked (onClose c) = invoked c @ map (\<lambda>p. (p, Some (closing_error c), None)) (pending c) \<and>
   (\<forall>cb rest. pending c = cb # rest \<longrightarrow>
      invoked (onMessage e m (onClose c)) = invoked (onClose c) @ [(cb, e, m)] \<and>
      pending (onMessage e m (onClose c)) = rest \<and>
      dropped (onMessage e m (onClose c)) = dropped c)"
  by (simp add: clearPending_def pending_forEach pending_onClose invoked_onClose onMessage_def
        invoked_callback pending_callback dropped_callback)
     (simp add: onClose_def clearPending_def dropped_forEach Let_def)

theorem clearPending_keeps_queue_witness:
  "pending (snd (send [''FETCH'', ''default''] fresh)) = [0] \<and>
   pending (onClose (snd (send [''FETCH'', ''default''] fresh))) = [0] \<and>
   invoked (onMessage None (Some ''late'') (onClose (snd (send [''FETCH'', ''default''] fresh)))) =
     [(0, Some (Error ''Connection closed''), None), (0, None, Some ''late'')]"
  using clearPending_keeps_queue [of "Error ''x''" "snd (send [''FETCH'', ''default''] fresh)" None "Some ''late''"]
  by (simp add: fresh_def send_def onClose_def clearPending_def closing_error_def
        callback_def settle_def Let_def onMessage_def)

section \<open>Worker: the properties\<close>

text \<open>
  C3. Once the worker is quieted, a tick does nothing but observe the flag: it gives no
  \<^verbatim>\<open>fetch\<close> to the client and leaves the slot returned, and a returned slot stays
  so whatever happens next (it is not rescheduled). Whatever the slots, the client and
  the shutdown do after \<^verbatim>\<open>quiet()\<close>, no \<^verbatim>\<open>fetch\<close> is issued again. A slot
  that was past the check when the worker was quieted completes its cycle: one awaiting
  its \<^verbatim>\<open>fetch\<close> takes the outcome (a fetched job is handled; a rejection goes to
  the catch block, which sleeps, or rejects the tick when no \<^verbatim>\<open>error\<close> listener is
  attached), one awaiting \<^verbatim>\<open>handle\<close> of a job has the job's ack or fail given to
  the client; the tick scheduled by its \<^verbatim>\<open>finally\<close> block then returns at the
  check, with no further command, and the slot is returned for good.
\<close>

theorem quiet_halts_fetching:
  assumes "quieted w"
  shows "calls (tick pid w) = calls w \<and>
         phase_of pid (tick pid w) = Some Returned \<and>
         filter is_fetch (calls (steps is w)) = filter is_fetch (calls w) \<and>
         (phase_of pid w = Some Returned \<longrightarrow> phase_of pid (steps is w) = Some Returned) \<and>
         (exited w = None \<and> phase_of pid w = Some (Handling j) \<longrightarrow>
            take (length (calls w)) (calls (step (HandleSettled pid) w)) = calls w \<and>
            (\<exists>c \<in> set (drop (length (calls w)) (calls (step (HandleSettled pid) w))).
               reports (jid j) c) \<and>
            phase_of pid (steps [HandleSettled pid, SleepSettled pid, SetTick pid] w) = Some Returned \<and>
            calls (steps [HandleSettled pid, SleepSettled pid, SetTick pid] w) =
              calls (step (HandleSettled pid) w)) \<and>
         (exited w = None \<and> phase_of pid w = Some Fetching \<longrightarrow>
            calls (step (FetchSettled pid r) w) = calls w \<and>
            phase_of pid (step (FetchSettled pid r) w) =
              Some (case r of Inl e \<Rightarrow> (if errorListener w then Sleeping else Failed)
                    | Inr None \<Rightarrow> Scheduled
                    | Inr (Some j') \<Rightarrow> Handling j') \<and>
            phase_of pid
              (steps [FetchSettled pid r, HandleSettled pid, SleepSettled pid, SetTick pid] w) =
              Some Returned)"
proof -
  have 1: "calls (tick pid w) = calls w" "phase_of pid (tick pid w) = Some Returned"
    using assms by (simp_all add: tick_fields)
  have 2: "filter is_fetch (calls (steps is w)) = filter is_fetch (calls w)"
    using assms by (rule steps_no_fetch)
  have 3: "phase_of pid w = Some Returned \<longrightarrow> phase_of pid (steps is w) = Some Returned"
    by (simp add: steps_returned)
  have 4: "take (length (calls w)) (calls (step (HandleSettled pid) w)) = calls w \<and>
            (\<exists>c \<in> set (drop (length (calls w)) (calls (step (HandleSettled pid) w))).
               reports (jid j) c) \<and>
            phase_of pid (steps [HandleSettled pid, SleepSettled pid, SetTick pid] w) = Some Returned \<and>
            calls (steps [HandleSettled pid, SleepSettled pid, SetTick pid] w) =
              calls (step (HandleSettled pid) w)"
    if a: "exited w = None" "phase_of pid w = Some (Handling j)"
  proof -
    let ?w = "step (HandleSettled pid) w"
    have s: "?w = tick_handle j pid w" using a by (simp add: step_def)
    have c: "calls ?w = calls (snd (handle j w))" by (simp add: s tick_handle_fields)
    have q: "quieted ?w" "exited ?w = None"
      using assms a by (simp_all add: s tick_handle_fields)
    have p: "phase_of pid ?w = Some Scheduled \<or> phase_of pid ?w = Some Failed \<or>
             phase_of pid ?w = Some Sleeping"
      unfolding s by (rule tick_handle_rescheduled)
    have r: "steps [HandleSettled pid, SleepSettled pid, SetTick pid] w =
             steps [SleepSettled pid, SetTick pid] ?w" by simp
    show ?thesis
      unfolding r using handle_reports[of w j] quieted_reschedule[OF q p] by (simp add: c)
  qed
  have 5: "exited w = None \<and> phase_of pid w = Some Fetching \<longrightarrow>
            calls (step (FetchSettled pid r) w) = calls w \<and>
            phase_of pid (step (FetchSettled pid r) w) =
              Some (case r of Inl e \<Rightarrow> (if errorListener w then Sleeping else Failed)
                    | Inr None \<Rightarrow> Scheduled
                    | Inr (Some j') \<Rightarrow> Handling j') \<and>
            phase_of pid
              (steps [FetchSettled pid r, HandleSettled pid, SleepSettled pid, SetTick pid] w) =
              Some Returned"
    using quieted_fetch_settles[OF assms, of pid r] by blast
  show ?thesis using 1 2 3 4 5 by blast
qed

text \<open>
  Instances of the theorem above, on a worker with no \<^verbatim>\<open>error\<close> listener: a
  slot handling a job, a slot whose fetch brings a job, a returned slot, and a slot
  whose fetch is rejected.
\<close>

theorem quiet_halts_fetching_witness:
  "quieted (quiet (mixed_worker accepting)) \<and>
   exited (quiet (mixed_worker accepting)) = None \<and>
   phase_of ''p1'' (quiet (mixed_worker accepting)) = Some (Handling noop_job) \<and>
   phase_of ''p3'' (quiet (mixed_worker accepting)) = Some Fetching \<and>
   phase_of ''p4'' (quiet (mixed_worker accepting)) = Some Returned \<and>
   calls (steps [HandleSettled ''p1'', FetchSettled ''p3'' (Inr (Some noop_job)), SetTick ''p1'',
                 SetTick ''p2'', HandleSettled ''p3'', SetTick ''p3'', SetTick ''p4'']
            (quiet (mixed_worker accepting))) = [Ack ''abc'', Ack ''abc''] \<and>
   processors (steps [HandleSettled ''p1'', FetchSettled ''p3'' (Inr (Some noop_job)), SetTick ''p1'',
                 SetTick ''p2'', HandleSettled ''p3'', SetTick ''p3'', SetTick ''p4'']
            (quiet (mixed_worker accepting))) =
     [(''p1'', Returned), (''p2'', Returned), (''p3'', Returned), (''p4'', Returned)] \<and>
   phase_of ''p3'' (step (FetchSettled ''p3'' (Inl (ThrownError (Error ''ECONNRESET''))))
                     (quiet (mixed_worker accepting))) = Some Failed \<and>
   phase_of ''p3'' (steps [FetchSettled ''p3'' (Inl (ThrownError (Error ''ECONNRESET''))),
                           SetTick ''p3'']
                     (quiet (mixed_worker accepting))) = Some Returned \<and>
   calls (steps [FetchSettled ''p3'' (Inl (ThrownError (Error ''ECONNRESET''))), SetTick ''p3'']
            (quiet (mixed_worker accepting))) = []"
  using quiet_halts_fetching [of "quiet (mixed_worker accepting)" "''p1''"
      "[HandleSettled ''p1'', FetchSettled ''p3'' (Inr (Some noop_job)), SetTick ''p1'',
        SetTick ''p2'', HandleSettled ''p3'', SetTick ''p3'', SetTick ''p4'']" noop_job "Inr None"]
    quiet_halts_fetching [of "quiet (mixed_worker accepting)" "''p3''"
      "[HandleSettled ''p1'', FetchSettled ''p3'' (Inr (Some noop_job)), SetTick ''p1'',
        SetTick ''p2'', HandleSettled ''p3'', SetTick ''p3'', SetTick ''p4'']" noop_job
      "Inr (Some noop_job)"]
    quiet_halts_fetching [of "quiet (mixed_worker accepting)" "''p4''"
      "[HandleSettled ''p1'', FetchSettled ''p3'' (Inr (Some noop_job)), SetTick ''p1'',
        SetTick ''p2'', HandleSettled ''p3'', SetTick ''p3'', SetTick ''p4'']" noop_job "Inr None"]
    quiet_halts_fetching [of "quiet (mixed_worker accepting)" "''p3''"
      "[FetchSettled ''p3'' (Inl (ThrownError (Error ''ECONNRESET''))), SetTick ''p3'']" noop_job
      "Inl (ThrownError (Error ''ECONNRESET''))"]
  by (simp add: step_def tick_def tick_handle_def tick_fetched_def tick_finally_def tick_catch_def
        tick_rejects_def tick_ends_def set_phase_def phase_of_def quiet_def mixed_worker_def
        handle_def handle_catch_def createExecutor_def getJobFnFromRegistry_def callJobFn_def
        new_worker_def registry_get_def object_members_def noop_registry_def noop_job_def
        accepting_def Let_def)

text \<open>
  C4, as amended. Take one call of \<^verbatim>\<open>stop()\<close>, on a worker that was not stopping,
  and let the slots go on. If every tick that the call collected has resolved and the
  client's \<^verbatim>\<open>close()\<close>, which \<^verbatim>\<open>stop()\<close> then awaits, has resolved before the
  timeout fires, the promise of \<^verbatim>\<open>stop()\<close> is resolved, the client has been closed
  exactly once, and nothing that follows short of another \<^verbatim>\<open>stop()\<close> (the timeout
  is cleared) closes it again or exits the process. If the timeout fires while the
  ticks are still awaited, the client is closed once and the process exits with status
  1, after which nothing runs.
\<close>

theorem stop_drains_or_exits:
  assumes "exited w = None" and "stops w = []" and "list_all slot_input is"
  shows "(drained 0 (steps is (stop w)) \<longrightarrow>
            map resolved (stops (steps (is @ [AllSettled 0, CloseSettled 0 None]) (stop w))) = [True] \<and>
            filter is_close (calls (steps (is @ [AllSettled 0, CloseSettled 0 None]) (stop w))) =
              filter is_close (calls w) @ [Close] \<and>
            (\<forall>later. list_all (\<lambda>i. \<not> is_stop i) later \<longrightarrow>
               exited (steps later (steps (is @ [AllSettled 0, CloseSettled 0 None]) (stop w))) = None \<and>
               filter is_close
                 (calls (steps later (steps (is @ [AllSettled 0, CloseSettled 0 None]) (stop w)))) =
                 filter is_close (calls w) @ [Close])) \<and>
         exited (steps (is @ [TimerFires 0]) (stop w)) = Some 1 \<and>
         filter is_close (calls (steps (is @ [TimerFires 0]) (stop w))) =
           filter is_close (calls w) @ [Close] \<and>
         (\<forall>later. steps later (steps (is @ [TimerFires 0]) (stop w)) =
                    steps (is @ [TimerFires 0]) (stop w))"
proof -
  have a: "map resolved (stops (steps (is @ [AllSettled 0, CloseSettled 0 None]) (stop w))) = [True] \<and>
            filter is_close (calls (steps (is @ [AllSettled 0, CloseSettled 0 None]) (stop w))) =
              filter is_close (calls w) @ [Close] \<and>
            (\<forall>later. list_all (\<lambda>i. \<not> is_stop i) later \<longrightarrow>
               exited (steps later (steps (is @ [AllSettled 0, CloseSettled 0 None]) (stop w))) = None \<and>
               filter is_close
                 (calls (steps later (steps (is @ [AllSettled 0, CloseSettled 0 None]) (stop w)))) =
                 filter is_close (calls w) @ [Close])"
    if d: "drained 0 (steps is (stop w))"
  proof -
    let ?w = "steps (is @ [AllSettled 0, CloseSettled 0 None]) (stop w)"
    have f: "finished ?w" and r: "map resolved (stops ?w) = [True]"
      and c: "filter is_close (calls ?w) = filter is_close (calls w) @ [Close]"
      using stop_drains[OF assms d] by blast+
    have "\<forall>later. list_all (\<lambda>i. \<not> is_stop i) later \<longrightarrow>
            exited (steps later ?w) = None \<and>
            filter is_close (calls (steps later ?w)) = filter is_close (calls w) @ [Close]"
      using steps_finished[OF f] c by (simp add: finished_def)
    then show ?thesis using r c by blast
  qed
  have b: "exited (steps (is @ [TimerFires 0]) (stop w)) = Some 1"
    "filter is_close (calls (steps (is @ [TimerFires 0]) (stop w))) = filter is_close (calls w) @ [Close]"
    using stop_times_out[OF assms] by blast+
  have c: "\<forall>later. steps later (steps (is @ [TimerFires 0]) (stop w)) = steps (is @ [TimerFires 0]) (stop w)"
    using exited_steps[OF b(1)] by blast
  show ?thesis using a b c by blast
qed

text \<open>An instance of the theorem above.\<close>

theorem stop_drains_or_exits_witness:
  "exited (busy_worker accepting) = None \<and>
   stops (busy_worker accepting) = [] \<and>
   list_all slot_input [HandleSettled ''p1''] \<and>
   map awaiting (stops (stop (busy_worker accepting))) = [[''p1'']] \<and>
   drained 0 (steps [HandleSettled ''p1''] (stop (busy_worker accepting))) \<and>
   map resolved (stops (steps ([HandleSettled ''p1''] @ [AllSettled 0, CloseSettled 0 None])
                          (stop (busy_worker accepting)))) = [True] \<and>
   calls (steps [TimerFires 0]
            (steps ([HandleSettled ''p1''] @ [AllSettled 0, CloseSettled 0 None])
               (stop (busy_worker accepting)))) = [Ack ''abc'', Close] \<and>
   exited (steps [TimerFires 0]
            (steps ([HandleSettled ''p1''] @ [AllSettled 0, CloseSettled 0 None])
               (stop (busy_worker accepting)))) = None \<and>
   exited (steps ([] @ [TimerFires 0]) (stop (busy_worker accepting))) = Some 1 \<and>
   calls (steps ([] @ [TimerFires 0]) (stop (busy_worker accepting))) = [Close]"
  using stop_drains_or_exits [of "busy_worker accepting" "[HandleSettled ''p1'']"]
    stop_drains_or_exits [of "busy_worker accepting" "[]"]
  by (simp add: step_def tick_def tick_handle_def tick_finally_def tick_catch_def tick_rejects_def
        tick_ends_def set_phase_def phase_of_def quiet_def stop_def inProgress_def drained_def
        update_stop_def stop_drained_def stop_warned_def stop_closed_def stop_timeout_def
        busy_worker_def
        handle_def handle_catch_def createExecutor_def getJobFnFromRegistry_def callJobFn_def
        new_worker_def registry_get_def object_members_def noop_registry_def noop_job_def
        accepting_def Let_def)

text \<open>
  C4 as stated fails, in three ways. The job of the one busy slot finishes and every
  tick has settled before the timeout, \<^verbatim>\<open>stop()\<close> calls \<^verbatim>\<open>close()\<close> and awaits
  it, and the timeout fires before that \<^verbatim>\<open>close()\<close> resolves: the client is closed
  a second time and the process exits with status 1. On a worker with no \<^verbatim>\<open>error\<close>
  listener, a fetch is rejected during the drain: every tick has settled, one of them
  rejected, so \<^verbatim>\<open>Promise.all\<close> rejects and \<^verbatim>\<open>stop()\<close> only warns, neither
  closing nor resolving, until the timeout closes the client and exits with status 1.
  And \<^verbatim>\<open>stop()\<close> called twice closes the client twice.
\<close>

theorem stop_drains_or_exits_counterexample:
  "drained 0 (steps [HandleSettled ''p1''] (stop (busy_worker accepting))) \<and>
   calls (steps [HandleSettled ''p1'', AllSettled 0, TimerFires 0] (stop (busy_worker accepting))) =
     [Ack ''abc'', Close, Close] \<and>
   exited (steps [HandleSettled ''p1'', AllSettled 0, TimerFires 0] (stop (busy_worker accepting))) =
     Some 1 \<and>
   map awaiting (stops (steps [HandleSettled ''p1'',
                               FetchSettled ''p3'' (Inl (ThrownError (Error ''ECONNRESET'')))]
                          (stop (mixed_worker accepting)))) = [[]] \<and>
   map stage (stops (steps [HandleSettled ''p1'',
                            FetchSettled ''p3'' (Inl (ThrownError (Error ''ECONNRESET''))),
                            AllSettled 0]
                       (stop (mixed_worker accepting)))) = [Warned] \<and>
   map resolved (stops (steps [HandleSettled ''p1'',
                               FetchSettled ''p3'' (Inl (ThrownError (Error ''ECONNRESET''))),
                               AllSettled 0]
                          (stop (mixed_worker accepting)))) = [False] \<and>
   calls (steps [HandleSettled ''p1'',
                 FetchSettled ''p3'' (Inl (ThrownError (Error ''ECONNRESET''))),
                 AllSettled 0]
            (stop (mixed_worker accepting))) = [Ack ''abc''] \<and>
   calls (steps [HandleSettled ''p1'',
                 FetchSettled ''p3'' (Inl (ThrownError (Error ''ECONNRESET''))),
                 AllSettled 0, TimerFires 0]
            (stop (mixed_worker accepting))) = [Ack ''abc'', Close] \<and>
   exited (steps [HandleSettled ''p1'',
                  FetchSettled ''p3'' (Inl (ThrownError (Error ''ECONNRESET''))),
                  AllSettled 0, TimerFires 0]
             (stop (mixed_worker accepting))) = Some 1 \<and>
   calls (steps [Stop, AllSettled 0, CloseSettled 0 None, AllSettled 1, CloseSettled 1 None]
            (stop (new_worker [] noop_registry accepting))) = [Close, Close]"
  by (simp add: step_def tick_def tick_handle_def tick_fetched_def tick_finally_def tick_catch_def
        tick_rejects_def tick_ends_def set_phase_def phase_of_def quiet_def stop_def inProgress_def
        drained_def update_stop_def stop_drained_def stop_warned_def stop_closed_def
        stop_timeout_def busy_worker_def mixed_worker_def
        handle_def handle_catch_def createExecutor_def getJobFnFromRegistry_def callJobFn_def
        new_worker_def registry_get_def object_members_def noop_registry_def noop_job_def
        accepting_def Let_def)

text \<open>
  C5. With the user middleware \<open>[m1, m2]\<close>, each of the shape
  \<^verbatim>\<open>pre; await next(); post\<close>, the executor of \<^verbatim>\<open>createExecutor\<close> is the code
  of \<open>m1\<close> before its continuation, then that of \<open>m2\<close>, then the lookup in the
  registry, then the invocation of the job function (and thunk), then the code of
  \<open>m2\<close> after its continuation, then that of \<open>m1\<close>, a throw skipping the rest.
  For any number of such middleware the two built-in stages run innermost, the lookup
  before the invocation.
\<close>

theorem middleware_onion_order:
  "createExecutor (w\<lparr>middleware := [around pre1 post1, around pre2 post2]\<rparr>) =
     seq (on_store pre1) (seq (on_store pre2)
       (seq (lookup_stage (registry_get w)) (seq invoke_stage
         (seq (on_store post2) (on_store post1))))) \<and>
   createExecutor (w\<lparr>middleware := map (\<lambda>(pre, post). around pre post) ms\<rparr>) =
     foldr (\<lambda>(pre, post) inner. seq (on_store pre) (seq inner (on_store post))) ms
       (seq (lookup_stage (registry_get w)) invoke_stage)"
proof -
  have "createExecutor (w\<lparr>middleware := [around pre1 post1, around pre2 post2]\<rparr>) =
     seq (on_store pre1) (seq (on_store pre2)
       (seq (lookup_stage (registry_get w)) (seq invoke_stage
         (seq (on_store post2) (on_store post1)))))"
    using createExecutor_around[of "w\<lparr>middleware := [around pre1 post1, around pre2 post2]\<rparr>" "[(pre1, post1), (pre2, post2)]"]
    by (simp add: seq_assoc registry_get_middleware)
  moreover have "createExecutor (w\<lparr>middleware := map (\<lambda>(pre, post). around pre post) ms\<rparr>) =
     foldr (\<lambda>(pre, post) inner. seq (on_store pre) (seq inner (on_store post))) ms
       (seq (lookup_stage (registry_get w)) invoke_stage)"
    using createExecutor_around[of "w\<lparr>middleware := map (\<lambda>(pre, post). around pre post) ms\<rparr>" ms]
    by (simp add: registry_get_middleware)
  ultimately show ?thesis by blast
qed

text \<open>An instance of the theorem above.\<close>

theorem middleware_onion_order_witness:
  "snd (createExecutor
     ((new_worker [] noop_registry accepting)
        \<lparr>middleware := [around (say ''m1-enter'') (say ''m1-exit''),
                        around (say ''m2-enter'') (say ''m2-exit'')]\<rparr>)
     \<lparr>job = noop_job, fn = None, store = []\<rparr>) =
   \<lparr>job = noop_job, fn = noop_registry ''Noop'',
    store = [''m1-enter'', ''m2-enter'', ''invoke'', ''m2-exit'', ''m1-exit'']\<rparr>"
  using middleware_onion_order [where w = "new_worker [] noop_registry accepting"
      and ?pre1.0 = "say ''m1-enter''" and ?post1.0 = "say ''m1-exit''"
      and ?pre2.0 = "say ''m2-enter''" and ?post2.0 = "say ''m2-exit''" and ms = "[]"]
  by (simp add: new_worker_def registry_get_def object_members_def seq_def on_store_def say_def lookup_stage_def invoke_stage_def
        getJobFnFromRegistry_def callJobFn_def done_task_def noop_registry_def noop_job_def Let_def)

text \<open>
  C6, as amended. For a job whose jobtype has no entry in the registry and is not the
  name of a property that the registry object inherits, when every user
  middleware has the shape \<^verbatim>\<open>pre; await next(); post\<close> with a \<open>pre\<close> that does
  not throw, \<^verbatim>\<open>handle\<close> takes the path of every job error (its catch block, with
  the error \<^verbatim>\<open>No jobtype registered: \<close> and the jobtype) and gives the client one
  fail report for the job's jid with that error. When that \<^verbatim>\<open>fail\<close> resolves,
  \<^verbatim>\<open>handle\<close> emits the fail event and returns \<^verbatim>\<open>fail\<close>; when it rejects,
  \<^verbatim>\<open>handle\<close> rejects with the client's error and emits nothing.
\<close>

theorem unregistered_jobtype_fails:
  assumes "registry w (jobtype j) = None"
    and "inherited w (jobtype j) = None"
    and "middleware w = map (\<lambda>(pre, post). around pre post) ms"
    and "list_all (\<lambda>(pre, post). completes pre) ms"
  shows "(\<exists>u. handle j w =
            handle_catch j (ThrownError (Error (''No jobtype registered: '' @ jobtype j)))
              (w\<lparr>userState := u\<rparr>)) \<and>
         calls (snd (handle j w)) =
           calls w @ [Fail (jid j) (Error (''No jobtype registered: '' @ jobtype j))] \<and>
         (client w (calls w) (Fail (jid j) (Error (''No jobtype registered: '' @ jobtype j))) = None \<longrightarrow>
            fst (handle j w) = Inr ''fail'' \<and>
            events (snd (handle j w)) =
              events w @ [EmitFail j (ThrownError (Error (''No jobtype registered: '' @ jobtype j)))]) \<and>
         (\<forall>e'. client w (calls w) (Fail (jid j) (Error (''No jobtype registered: '' @ jobtype j))) = Some e' \<longrightarrow>
            fst (handle j w) = Inl e' \<and> events (snd (handle j w)) = events w)"
proof -
  let ?err = "ThrownError (Error (''No jobtype registered: '' @ jobtype j))"
  let ?c = "\<lparr>job = j, fn = None, store = userState w\<rparr>"
  have n: "registry_get w (jobtype j) = None"
    using assms(1,2) by (simp add: registry_get_def)
  have k: "\<And>s. job s = j \<Longrightarrow>
             fst (seq (lookup_stage (registry_get w)) invoke_stage s) = Some ?err"
    using n by (simp add: lookup_unregistered)
  have "fst (createExecutor w ?c) = Some ?err"
    unfolding createExecutor_around[OF assms(3)]
    by (rule around_chain_throws[OF assms(4) k]) simp_all
  then obtain s where ex: "createExecutor w ?c = (Some ?err, s)"
    by (cases "createExecutor w ?c") simp
  have h: "handle j w = handle_catch j ?err (w\<lparr>userState := store s\<rparr>)"
    using ex by (rule handle_threw)
  have 1: "\<exists>u. handle j w = handle_catch j ?err (w\<lparr>userState := u\<rparr>)"
    using h by blast
  have 2: "calls (snd (handle j w)) =
           calls w @ [Fail (jid j) (Error (''No jobtype registered: '' @ jobtype j))]"
    by (simp add: h handle_catch_cases split: option.splits)
  have 3: "client w (calls w) (Fail (jid j) (Error (''No jobtype registered: '' @ jobtype j))) = None \<longrightarrow>
            fst (handle j w) = Inr ''fail'' \<and>
            events (snd (handle j w)) = events w @ [EmitFail j ?err]"
    by (simp add: h handle_catch_cases)
  have 4: "\<forall>e'. client w (calls w) (Fail (jid j) (Error (''No jobtype registered: '' @ jobtype j))) = Some e' \<longrightarrow>
            fst (handle j w) = Inl e' \<and> events (snd (handle j w)) = events w"
    by (simp add: h handle_catch_cases)
  show ?thesis using 1 2 3 4 by blast
qed

text \<open>An instance of the theorem above.\<close>

theorem unregistered_jobtype_fails_witness:
  "fst (handle noop_job
     (new_worker [around (say ''m1-enter'') (say ''m1-exit'')] (\<lambda>t. None) accepting)) = Inr ''fail'' \<and>
   calls (snd (handle noop_job
     (new_worker [around (say ''m1-enter'') (say ''m1-exit'')] (\<lambda>t. None) accepting))) =
     [Fail ''abc'' (Error ''No jobtype registered: Noop'')] \<and>
   events (snd (handle noop_job
     (new_worker [around (say ''m1-enter'') (say ''m1-exit'')] (\<lambda>t. None) accepting))) =
     [EmitFail noop_job (ThrownError (Error ''No jobtype registered: Noop''))] \<and>
   fst (handle noop_job
     (new_worker [around (say ''m1-enter'') (say ''m1-exit'')] (\<lambda>t. None) rejecting_fail)) =
     Inl (ThrownError (Error ''Connection closed'')) \<and>
   calls (snd (handle noop_job
     (new_worker [around (say ''m1-enter'') (say ''m1-exit'')] (\<lambda>t. None) rejecting_fail))) =
     [Fail ''abc'' (Error ''No jobtype registered: Noop'')]"
  using unregistered_jobtype_fails [of "new_worker [around (say ''m1-enter'') (say ''m1-exit'')] (\<lambda>t. None) accepting"
      noop_job "[(say ''m1-enter'', say ''m1-exit'')]"]
    unregistered_jobtype_fails [of "new_worker [around (say ''m1-enter'') (say ''m1-exit'')] (\<lambda>t. None) rejecting_fail"
      noop_job "[(say ''m1-enter'', say ''m1-exit'')]"]
  by (simp add: handle_def handle_catch_def createExecutor_def around_def seq_def on_store_def
        getJobFnFromRegistry_def callJobFn_def new_worker_def registry_get_def object_members_def noop_job_def accepting_def
        rejecting_fail_def completes_def say_def Let_def)

text \<open>
  C6 as stated fails twice over: with a client whose \<^verbatim>\<open>fail\<close> rejects,
  \<^verbatim>\<open>handle\<close> returns no marker but rejects; with a middleware that returns without
  calling its continuation the registry is never consulted, and the job of an
  unregistered jobtype is acknowledged.
\<close>

theorem unregistered_jobtype_counterexample:
  "fst (handle noop_job (new_worker [] (\<lambda>t. None) rejecting_fail)) =
     Inl (ThrownError (Error ''Connection closed'')) \<and>
   events (snd (handle noop_job (new_worker [] (\<lambda>t. None) rejecting_fail))) = [] \<and>
   fst (handle noop_job (new_worker [short_circuit] (\<lambda>t. None) accepting)) = Inr ''ack'' \<and>
   calls (snd (handle noop_job (new_worker [short_circuit] (\<lambda>t. None) accepting))) = [Ack ''abc'']"
  by (simp add: handle_def handle_catch_def createExecutor_def getJobFnFromRegistry_def callJobFn_def
        new_worker_def registry_get_def object_members_def noop_job_def rejecting_fail_def accepting_def short_circuit_def on_store_def
        say_def Let_def)

text \<open>
  C7, as amended. For a job whose execution through the chain completes without a
  throw, \<^verbatim>\<open>handle\<close> gives the client exactly one ack, for the job's jid, after the
  commands already made; when that \<^verbatim>\<open>ack\<close> resolves, \<^verbatim>\<open>handle\<close> returns
  \<^verbatim>\<open>ack\<close>, having given the client nothing else and emitted nothing.
\<close>

theorem successful_job_acks:
  assumes "fst (createExecutor w \<lparr>job = j, fn = None, store = userState w\<rparr>) = None"
  shows "take (length (calls w)) (calls (snd (handle j w))) = calls w \<and>
         filter is_ack (drop (length (calls w)) (calls (snd (handle j w)))) = [Ack (jid j)] \<and>
         (client w (calls w) (Ack (jid j)) = None \<longrightarrow>
            fst (handle j w) = Inr ''ack'' \<and>
            calls (snd (handle j w)) = calls w @ [Ack (jid j)] \<and>
            events (snd (handle j w)) = events w)"
proof -
  obtain s where ex: "createExecutor w \<lparr>job = j, fn = None, store = userState w\<rparr> = (None, s)"
    using assms by (cases "createExecutor w \<lparr>job = j, fn = None, store = userState w\<rparr>") simp
  show ?thesis
    by (simp add: handle_completed[OF ex] handle_catch_cases split: option.splits)
qed

text \<open>An instance of the theorem above.\<close>

theorem successful_job_acks_witness:
  "fst (createExecutor (new_worker [around (say ''m1-enter'') (say ''m1-exit'')] noop_registry accepting)
          \<lparr>job = noop_job, fn = None, store = []\<rparr>) = None \<and>
   fst (handle noop_job
     (new_worker [around (say ''m1-enter'') (say ''m1-exit'')] noop_registry accepting)) = Inr ''ack'' \<and>
   calls (snd (handle noop_job
     (new_worker [around (say ''m1-enter'') (say ''m1-exit'')] noop_registry accepting))) = [Ack ''abc'']"
  using successful_job_acks [of "new_worker [around (say ''m1-enter'') (say ''m1-exit'')] noop_registry accepting" noop_job]
  by (simp add: handle_def handle_catch_def createExecutor_def around_def seq_def on_store_def say_def getJobFnFromRegistry_def
        callJobFn_def new_worker_def registry_get_def object_members_def noop_registry_def noop_job_def accepting_def Let_def)

text \<open>
  C7 as stated fails: the job function completes, the client's \<^verbatim>\<open>ack\<close> rejects,
  and \<^verbatim>\<open>handle\<close> returns \<^verbatim>\<open>fail\<close>.
\<close>

theorem successful_job_counterexample:
  "fst (createExecutor (new_worker [] noop_registry rejecting_ack)
          \<lparr>job = noop_job, fn = None, store = []\<rparr>) = None \<and>
   fst (handle noop_job (new_worker [] noop_registry rejecting_ack)) = Inr ''fail'' \<and>
   calls (snd (handle noop_job (new_worker [] noop_registry rejecting_ack))) =
     [Ack ''abc'', Fail ''abc'' (Error ''Connection closed'')]"
  by (simp add: handle_def handle_catch_def createExecutor_def getJobFnFromRegistry_def callJobFn_def
        new_worker_def registry_get_def object_members_def noop_registry_def noop_job_def rejecting_ack_def Let_def)

text \<open>
  C8, as amended. For every job and every value \<open>e\<close> that its execution through the
  chain throws, \<^verbatim>\<open>handle\<close> catches \<open>e\<close> and gives the client one fail report for
  the job's jid with the normalized error. When that \<^verbatim>\<open>fail\<close> resolves,
  \<^verbatim>\<open>handle\<close> emits the fail event with the job and the raw \<open>e\<close> and returns
  \<^verbatim>\<open>fail\<close>, and the tick goes on to reschedule its slot. When that \<^verbatim>\<open>fail\<close>
  rejects, \<^verbatim>\<open>handle\<close> rejects with the client's error, no fail event is
  emitted, and the tick catches that error: with an \<^verbatim>\<open>error\<close> listener attached
  to the worker it emits it as an error event and sleeps; with none attached the
  \<^verbatim>\<open>emit\<close> throws, nothing is emitted, the slot is rescheduled at once and the
  tick rejects.
\<close>

theorem handle_catches_job_errors:
  assumes "fst (createExecutor w \<lparr>job = j, fn = None, store = userState w\<rparr>) = Some e"
  shows "calls (snd (handle j w)) = calls w @ [Fail (jid j) (wrapNonErrors e)] \<and>
         (client w (calls w) (Fail (jid j) (wrapNonErrors e)) = None \<longrightarrow>
            fst (handle j w) = Inr ''fail'' \<and>
            events (snd (handle j w)) = events w @ [EmitFail j e] \<and>
            events (tick_handle j pid w) = events w @ [EmitFail j e] \<and>
            phase_of pid (tick_handle j pid w) = Some Scheduled) \<and>
         (\<forall>e'. client w (calls w) (Fail (jid j) (wrapNonErrors e)) = Some e' \<longrightarrow>
            fst (handle j w) = Inl e' \<and>
            events (snd (handle j w)) = events w \<and>
            (errorListener w \<longrightarrow>
               events (tick_handle j pid w) = events w @ [EmitError e'] \<and>
               phase_of pid (tick_handle j pid w) = Some Sleeping) \<and>
            (\<not> errorListener w \<longrightarrow>
               events (tick_handle j pid w) = events w \<and>
               phase_of pid (tick_handle j pid w) = Some Failed))"
proof -
  obtain s where ex: "createExecutor w \<lparr>job = j, fn = None, store = userState w\<rparr> = (Some e, s)"
    using assms by (cases "createExecutor w \<lparr>job = j, fn = None, store = userState w\<rparr>") simp
  have h: "handle j w = handle_catch j e (w\<lparr>userState := store s\<rparr>)"
    using ex by (rule handle_threw)
  have 1: "calls (snd (handle j w)) = calls w @ [Fail (jid j) (wrapNonErrors e)]"
    by (simp add: h handle_catch_cases split: option.splits)
  have 2: "client w (calls w) (Fail (jid j) (wrapNonErrors e)) = None \<longrightarrow>
            fst (handle j w) = Inr ''fail'' \<and>
            events (snd (handle j w)) = events w @ [EmitFail j e] \<and>
            events (tick_handle j pid w) = events w @ [EmitFail j e] \<and>
            phase_of pid (tick_handle j pid w) = Some Scheduled"
    by (simp add: phase_of_tick_handle) (simp add: tick_handle_unfold h handle_catch_cases tick_events)
  have 3: "\<forall>e'. client w (calls w) (Fail (jid j) (wrapNonErrors e)) = Some e' \<longrightarrow>
            fst (handle j w) = Inl e' \<and>
            events (snd (handle j w)) = events w \<and>
            (errorListener w \<longrightarrow>
               events (tick_handle j pid w) = events w @ [EmitError e'] \<and>
               phase_of pid (tick_handle j pid w) = Some Sleeping) \<and>
            (\<not> errorListener w \<longrightarrow>
               events (tick_handle j pid w) = events w \<and>
               phase_of pid (tick_handle j pid w) = Some Failed)"
    by (simp add: phase_of_tick_handle) (simp add: tick_handle_unfold h handle_catch_cases tick_events)
  show ?thesis using 1 2 3 by blast
qed

text \<open>
  Instances of the theorem above: the fail report accepted; rejected on a worker with
  an \<^verbatim>\<open>error\<close> listener; rejected on a worker with none.
\<close>

theorem handle_catches_job_errors_witness:
  "fst (createExecutor (new_worker [] boom_registry accepting)
          \<lparr>job = noop_job, fn = None, store = []\<rparr>) = Some (ThrownValue ''boom'') \<and>
   fst (handle noop_job (new_worker [] boom_registry accepting)) = Inr ''fail'' \<and>
   calls (snd (handle noop_job (new_worker [] boom_registry accepting))) =
     [Fail ''abc'' (Error ''boom'')] \<and>
   events (snd (handle noop_job (new_worker [] boom_registry accepting))) =
     [EmitFail noop_job (ThrownValue ''boom'')] \<and>
   fst (handle noop_job ((new_worker [] boom_registry rejecting_fail)\<lparr>errorListener := True\<rparr>)) =
     Inl (ThrownError (Error ''Connection closed'')) \<and>
   events (tick_handle noop_job ''p1''
             ((new_worker [] boom_registry rejecting_fail)\<lparr>errorListener := True\<rparr>)) =
     [EmitError (ThrownError (Error ''Connection closed''))] \<and>
   phase_of ''p1'' (tick_handle noop_job ''p1''
             ((new_worker [] boom_registry rejecting_fail)\<lparr>errorListener := True\<rparr>)) =
     Some Sleeping \<and>
   events (tick_handle noop_job ''p1'' (new_worker [] boom_registry rejecting_fail)) = [] \<and>
   phase_of ''p1'' (tick_handle noop_job ''p1'' (new_worker [] boom_registry rejecting_fail)) =
     Some Failed"
  using handle_catches_job_errors [of "new_worker [] boom_registry accepting" noop_job
      "ThrownValue ''boom''" "''p1''"]
    handle_catches_job_errors [of "(new_worker [] boom_registry rejecting_fail)\<lparr>errorListener := True\<rparr>"
      noop_job "ThrownValue ''boom''" "''p1''"]
    handle_catches_job_errors [of "new_worker [] boom_registry rejecting_fail" noop_job
      "ThrownValue ''boom''" "''p1''"]
  by (simp add: tick_handle_def tick_catch_def tick_finally_def tick_rejects_def tick_ends_def
        set_phase_def phase_of_def
        handle_def handle_catch_def createExecutor_def getJobFnFromRegistry_def callJobFn_def
        new_worker_def registry_get_def object_members_def boom_registry_def noop_job_def
        accepting_def rejecting_fail_def Let_def)

text \<open>
  C8 as stated fails: the job function throws, the client's \<^verbatim>\<open>fail\<close> rejects, and
  \<^verbatim>\<open>handle\<close> rejects instead of returning \<^verbatim>\<open>fail\<close>; no fail event is
  emitted. The tick sees the rejection, and on this worker, which has no \<^verbatim>\<open>error\<close>
  listener, rejects in its turn.
\<close>

theorem handle_catches_job_errors_counterexample:
  "fst (createExecutor (new_worker [] boom_registry rejecting_fail)
          \<lparr>job = noop_job, fn = None, store = []\<rparr>) = Some (ThrownValue ''boom'') \<and>
   fst (handle noop_job (new_worker [] boom_registry rejecting_fail)) =
     Inl (ThrownError (Error ''Connection closed'')) \<and>
   events (snd (handle noop_job (new_worker [] boom_registry rejecting_fail))) = [] \<and>
   events (tick_handle noop_job ''p1'' (new_worker [] boom_registry rejecting_fail)) = [] \<and>
   phase_of ''p1'' (tick_handle noop_job ''p1'' (new_worker [] boom_registry rejecting_fail)) =
     Some Failed"
  by (simp add: tick_handle_def tick_catch_def tick_rejects_def tick_ends_def set_phase_def
        phase_of_def
        handle_def handle_catch_def createExecutor_def getJobFnFromRegistry_def callJobFn_def
        new_worker_def registry_get_def object_members_def boom_registry_def noop_job_def
        rejecting_fail_def Let_def)

text \<open>
  C10, as amended. For a job whose execution through the chain completes and whose
  \<^verbatim>\<open>ack\<close> the client rejects with \<open>e\<close>, \<^verbatim>\<open>handle\<close> gives the client the
  ack and then a fail report for the same jid with the normalized \<open>e\<close>. When that
  \<^verbatim>\<open>fail\<close> resolves, \<^verbatim>\<open>handle\<close> emits the fail event with the job and \<open>e\<close>
  and returns \<^verbatim>\<open>fail\<close>; when it rejects too, \<^verbatim>\<open>handle\<close> rejects with the
  client's error and emits nothing.
\<close>

theorem rejected_ack_fails_job:
  assumes "fst (createExecutor w \<lparr>job = j, fn = None, store = userState w\<rparr>) = None"
    and "client w (calls w) (Ack (jid j)) = Some e"
  shows "calls (snd (handle j w)) = calls w @ [Ack (jid j), Fail (jid j) (wrapNonErrors e)] \<and>
         (client w (calls w @ [Ack (jid j)]) (Fail (jid j) (wrapNonErrors e)) = None \<longrightarrow>
            fst (handle j w) = Inr ''fail'' \<and>
            events (snd (handle j w)) = events w @ [EmitFail j e]) \<and>
         (\<forall>e'. client w (calls w @ [Ack (jid j)]) (Fail (jid j) (wrapNonErrors e)) = Some e' \<longrightarrow>
            fst (handle j w) = Inl e' \<and> events (snd (handle j w)) = events w)"
proof -
  obtain s where ex: "createExecutor w \<lparr>job = j, fn = None, store = userState w\<rparr> = (None, s)"
    using assms(1) by (cases "createExecutor w \<lparr>job = j, fn = None, store = userState w\<rparr>") simp
  show ?thesis
    by (simp add: handle_completed[OF ex] assms(2) handle_catch_cases split: option.splits)
qed

text \<open>An instance of the theorem above.\<close>

theorem rejected_ack_fails_job_witness:
  "fst (createExecutor (new_worker [] noop_registry rejecting_ack)
          \<lparr>job = noop_job, fn = None, store = []\<rparr>) = None \<and>
   rejecting_ack [] (Ack ''abc'') = Some (ThrownError (Error ''Connection closed'')) \<and>
   fst (handle noop_job (new_worker [] noop_registry rejecting_ack)) = Inr ''fail'' \<and>
   calls (snd (handle noop_job (new_worker [] noop_registry rejecting_ack))) =
     [Ack ''abc'', Fail ''abc'' (Error ''Connection closed'')] \<and>
   events (snd (handle noop_job (new_worker [] noop_registry rejecting_ack))) =
     [EmitFail noop_job (ThrownError (Error ''Connection closed''))] \<and>
   fst (handle noop_job (new_worker [] noop_registry rejecting_all)) =
     Inl (ThrownError (Error ''Connection closed''))"
  using rejected_ack_fails_job [of "new_worker [] noop_registry rejecting_ack" noop_job
      "ThrownError (Error ''Connection closed'')"]
    rejected_ack_fails_job [of "new_worker [] noop_registry rejecting_all" noop_job
      "ThrownError (Error ''Connection closed'')"]
  by (simp add: handle_def handle_catch_def createExecutor_def getJobFnFromRegistry_def callJobFn_def
        new_worker_def registry_get_def object_members_def noop_registry_def noop_job_def rejecting_ack_def rejecting_all_def Let_def)

text \<open>
  C10 as stated fails: the job completes, the client rejects the \<^verbatim>\<open>ack\<close> and then
  the \<^verbatim>\<open>fail\<close> as well; \<^verbatim>\<open>handle\<close> has sent both, but it emits no fail
  event and returns no marker: it rejects.
\<close>

theorem rejected_ack_fails_job_counterexample:
  "fst (createExecutor (new_worker [] noop_registry rejecting_all)
          \<lparr>job = noop_job, fn = None, store = []\<rparr>) = None \<and>
   rejecting_all [] (Ack ''abc'') = Some (ThrownError (Error ''Connection closed'')) \<and>
   fst (handle noop_job (new_worker [] noop_registry rejecting_all)) =
     Inl (ThrownError (Error ''Connection closed'')) \<and>
   calls (snd (handle noop_job (new_worker [] noop_registry rejecting_all))) =
     [Ack ''abc'', Fail ''abc'' (Error ''Connection closed'')] \<and>
   events (snd (handle noop_job (new_worker [] noop_registry rejecting_all))) = []"
  by (simp add: handle_def handle_catch_def createExecutor_def getJobFnFromRegistry_def callJobFn_def
        new_worker_def registry_get_def object_members_def noop_registry_def noop_job_def rejecting_all_def Let_def)

end
